theory Spec2Isabelle
  imports Complex_Main "HOL-Library.Sublist"
begin

section \<open>Values of the Python program\<close>

text \<open>
  The program is \<^verbatim>\<open>src/main.py\<close>: a Streamlit page that asks two Gemini models to
  read a KYC form, keeps the most confident answer, lets the user edit it and appends
  it to an Excel file through pandas.

  A value returned by \<^verbatim>\<open>json.loads\<close> is a \<open>json\<close>. A JSON number is kept as the
  real number the parsed Python \<^verbatim>\<open>int\<close> or \<^verbatim>\<open>float\<close> stands for; Python compares
  such numbers exactly, so \<open><\<close> on \<open>real\<close> is the program's comparison (the non-standard
  literals \<^verbatim>\<open>NaN\<close> and \<^verbatim>\<open>Infinity\<close> are not represented). The float literal \<^verbatim>\<open>0.98\<close>
  of line 171 is the double next below 98/100, and no double or integer lies between the
  two, so a parsed number exceeds the literal exactly when it exceeds 98/100; \<^verbatim>\<open>-1.0\<close>
  and \<^verbatim>\<open>0.0\<close> are exact. A Python \<^verbatim>\<open>dict\<close> keeps its keys in insertion order and that
  order decides the columns of a data frame, so a dictionary is an association list (of
  distinct keys, as \<^verbatim>\<open>json.loads\<close> and dict assignment produce them).
\<close>

datatype json =
    JNull
  | JBool bool
  | JNum real
  | JStr string
  | JArr "json list"
  | JObj "(string \<times> json) list"

type_synonym dict = "(string \<times> json) list"

text \<open>\<^verbatim>\<open>d.get(k, default)\<close>\<close>

definition dict_get :: "dict \<Rightarrow> string \<Rightarrow> json \<Rightarrow> json" where
  "dict_get d k dflt = (case map_of d k of None \<Rightarrow> dflt | Some v \<Rightarrow> v)"

text \<open>\<^verbatim>\<open>d[k] = v\<close>: an existing key keeps its position, a new key goes last.\<close>

fun dict_set :: "dict \<Rightarrow> string \<Rightarrow> json \<Rightarrow> dict" where
  "dict_set [] k v = [(k, v)]"
| "dict_set ((k', v') # d) k v =
     (if k' = k then (k, v) # d else (k', v') # dict_set d k v)"

text \<open>Python's truth value of an object, as \<^verbatim>\<open>or\<close> and \<^verbatim>\<open>not\<close> test it.\<close>

fun truthy :: "json \<Rightarrow> bool" where
  "truthy JNull = False"
| "truthy (JBool b) = b"
| "truthy (JNum r) = (r \<noteq> 0)"
| "truthy (JStr s) = (s \<noteq> [])"
| "truthy (JArr xs) = (xs \<noteq> [])"
| "truthy (JObj d) = (d \<noteq> [])"

definition py_or :: "json \<Rightarrow> json \<Rightarrow> json" where
  "py_or a b = (if truthy a then a else b)"

text \<open>
  The operand of \<^verbatim>\<open>>\<close> against a float: numbers and booleans (\<^verbatim>\<open>True\<close> is 1) compare,
  anything else raises \<^verbatim>\<open>TypeError\<close> (\<open>None\<close> here).
\<close>

fun as_number :: "json \<Rightarrow> real option" where
  "as_number (JNum r) = Some r"
| "as_number (JBool b) = Some (if b then 1 else 0)"
| "as_number _ = None"

datatype py_exn = ApiError string | AttributeError | TypeError | KeyError | IOError

text \<open>
  What the page shows. The f-strings of the source are kept as constructors holding the
  values they interpolate.
\<close>

datatype ui_text =
    TryingModel string
  | HighConfidence
  | ModelFailed string py_exn
  | AllModelsFailed
  | CreatedDatabase
  | SavedData
  | SaveError py_exn
  | DownloadError py_exn

datatype ui_event = Write ui_text | Warning ui_text | Error ui_text | Success ui_text

section \<open>The extraction loop: \<^verbatim>\<open>enhanced_gemini_extraction\<close>\<close>

text \<open>
  One backend call is lines 151 to 161: build the model, \<^verbatim>\<open>generate_content\<close>, read
  \<^verbatim>\<open>response.text\<close>, \<^verbatim>\<open>json.loads\<close>. Either one of them raises, with a message, or
  \<^verbatim>\<open>json.loads\<close> returns a value.
\<close>

datatype outcome = Raised string | Parsed json

text \<open>
  Lines 161 to 165, up to the first comparison: every point that can raise before the
  loop's variables change. \<^verbatim>\<open>.get\<close> exists on a dict only; the defaulted confidence is
  \<^verbatim>\<open>result_data.get('confidence_score', 0.0) or 0.0\<close>; comparing it with the float
  \<^verbatim>\<open>highest_confidence\<close> raises unless it is a number.
\<close>

definition read_confidence :: "outcome \<Rightarrow> py_exn + (dict \<times> real)" where
  "read_confidence out =
     (case out of
        Raised msg \<Rightarrow> Inl (ApiError msg)
      | Parsed result_data \<Rightarrow>
          (case result_data of
             JObj d \<Rightarrow>
               (case as_number (py_or (dict_get d ''confidence_score'' (JNum 0)) (JNum 0)) of
                  None \<Rightarrow> Inl TypeError
                | Some confidence \<Rightarrow> Inr (d, confidence))
           | _ \<Rightarrow> Inl AttributeError))"

text \<open>
  The loop's variables, with the two effects of the loop made explicit: what is shown
  on the page (\<open>ui\<close>) and which backends were called, in call order (\<open>calls\<close>).
\<close>

record ext_state =
  best_result :: "dict option"
  highest_confidence :: real
  errors :: "ui_text list"
  ui :: "ui_event list"
  calls :: "string list"

definition initial :: ext_state where
  "initial = \<lparr>best_result = None, highest_confidence = - 1, errors = [], ui = [], calls = []\<rparr>"

text \<open>The \<^verbatim>\<open>except\<close> branch, lines 175 to 179.\<close>

definition model_failed :: "ext_state \<Rightarrow> string \<Rightarrow> py_exn \<Rightarrow> ext_state" where
  "model_failed s model_name e =
     s\<lparr>errors := errors s @ [ModelFailed model_name e],
       ui := ui s @ [Warning (ModelFailed model_name e)]\<rparr>"

text \<open>One iteration of the loop; the boolean is \<^verbatim>\<open>break\<close>.\<close>

definition try_model :: "ext_state \<Rightarrow> string \<times> outcome \<Rightarrow> ext_state \<times> bool" where
  "try_model s m =
     (let model_name = fst m;
          s1 = s\<lparr>ui := ui s @ [Write (TryingModel model_name)],
                 calls := calls s @ [model_name]\<rparr>
      in case read_confidence (snd m) of
           Inl e \<Rightarrow> (model_failed s1 model_name e, False)
         | Inr (result_data, confidence) \<Rightarrow>
             (let s2 = (if confidence > highest_confidence s1
                        then s1\<lparr>highest_confidence := confidence,
                                best_result :=
                                  Some (dict_set result_data ''model_used'' (JStr model_name))\<rparr>
                        else s1)
              in if confidence > 98 / 100
                 then (s2\<lparr>ui := ui s2 @ [Write HighConfidence]\<rparr>, True)
                 else (s2, False)))"

text \<open>
  The \<^verbatim>\<open>for\<close> loop over the candidates. Each candidate comes with the outcome its
  call has if it is made.
\<close>

fun run_models :: "(string \<times> outcome) list \<Rightarrow> ext_state \<Rightarrow> ext_state" where
  "run_models [] s = s"
| "run_models (m # ms) s =
     (case try_model s m of
        (s', True) \<Rightarrow> s'
      | (s', False) \<Rightarrow> run_models ms s')"

text \<open>Lines 181 and 182: \<^verbatim>\<open>if not best_result and errors\<close>.\<close>

definition report_failure :: "ext_state \<Rightarrow> ext_state" where
  "report_failure s =
     (if (case best_result s of None \<Rightarrow> True | Some d \<Rightarrow> d = []) \<and> errors s \<noteq> []
      then s\<lparr>ui := ui s @ [Error AllModelsFailed]\<rparr> else s)"

definition models_to_try :: "string list" where
  "models_to_try = [''gemini-1.5-pro-latest'', ''gemini-1.5-flash-latest'']"

text \<open>
  The function itself. \<open>generate\<close> is the service: the outcome of calling the model of
  that name with the fixed prompt and the (resized) image. The function returns
  \<^verbatim>\<open>best_result\<close> alone (line 184); the page and the call log are its effects.
\<close>

definition extraction_run :: "(string \<Rightarrow> outcome) \<Rightarrow> ext_state" where
  "extraction_run generate =
     report_failure (run_models (map (\<lambda>n. (n, generate n)) models_to_try) initial)"

definition enhanced_gemini_extraction :: "(string \<Rightarrow> outcome) \<Rightarrow> dict option" where
  "enhanced_gemini_extraction generate = best_result (extraction_run generate)"

subsection \<open>Notions used to state the properties of the loop\<close>

text \<open>The warnings shown on the page, in order.\<close>

fun warnings :: "ui_event list \<Rightarrow> ui_text list" where
  "warnings [] = []"
| "warnings (Warning t # evs) = t # warnings evs"
| "warnings (_ # evs) = warnings evs"

text \<open>\<open>err\<close> is the message line 176 builds for the failed candidate \<open>m\<close>.\<close>

definition failure_message :: "ui_text \<Rightarrow> string \<times> outcome \<Rightarrow> bool" where
  "failure_message err m \<longleftrightarrow>
     (\<exists>e. read_confidence (snd m) = Inl e \<and> err = ModelFailed (fst m) e)"

text \<open>No candidate of \<open>ps\<close> that succeeded has a confidence above \<open>h\<close>.\<close>

definition bounded_by :: "(string \<times> outcome) list \<Rightarrow> real \<Rightarrow> bool" where
  "bounded_by ps h \<longleftrightarrow>
     (\<forall>j d c. j < length ps \<and> read_confidence (snd (ps ! j)) = Inr (d, c) \<longrightarrow> c \<le> h)"

text \<open>
  Candidate \<open>i\<close> of \<open>ps\<close> succeeded with record \<open>d\<close> and confidence \<open>c\<close>, and every
  earlier success is strictly less confident.
\<close>

definition first_best :: "(string \<times> outcome) list \<Rightarrow> nat \<Rightarrow> dict \<Rightarrow> real \<Rightarrow> bool" where
  "first_best ps i d c \<longleftrightarrow>
     i < length ps \<and> read_confidence (snd (ps ! i)) = Inr (d, c) \<and>
     (\<forall>j d' c'. j < i \<and> read_confidence (snd (ps ! j)) = Inr (d', c') \<longrightarrow> c' < c)"

text \<open>The loop invariant: \<open>ps\<close> are the candidates tried so far.\<close>

definition chosen :: "(string \<times> outcome) list \<Rightarrow> ext_state \<Rightarrow> bool" where
  "chosen ps s \<longleftrightarrow>
     calls s = map fst ps \<and> bounded_by ps (highest_confidence s) \<and>
     (case best_result s of
        None \<Rightarrow> highest_confidence s = - 1
      | Some r \<Rightarrow>
          - 1 < highest_confidence s \<and>
          (\<exists>i d. first_best ps i d (highest_confidence s)
             \<and> r = dict_set d ''model_used'' (JStr (fst (ps ! i)))))"

section \<open>The Excel store\<close>

text \<open>
  \<^verbatim>\<open>EXCEL_COLUMNS = list(KYCFormData.model_fields.keys())\<close>: the fields of the schema
  class in declaration order (lines 24 to 51).
\<close>

definition EXCEL_COLUMNS :: "string list" where
  "EXCEL_COLUMNS =
     [''document_title'', ''society_name'', ''control_number'', ''name'',
      ''father_husband_name'', ''designation'', ''bill_unit_number'', ''department'',
      ''sr_number'', ''office_address'', ''residential_address'', ''date_of_birth'',
      ''date_of_appointment'', ''mobile_number'', ''pan_number'', ''aadhar_number'',
      ''bank_name'', ''branch_name'', ''branch_code'', ''account_number'', ''ifsc_code'',
      ''nominee_name'', ''nominee_relation'', ''nominee_dob'', ''nominee_aadhar'',
      ''nominee_pan'', ''confidence_score'', ''model_used'']"

subsection \<open>The pandas operations the program uses\<close>

text \<open>
  A data frame is its column labels, in order, and its rows, each a list of cells in
  column order. A cell is a \<open>json\<close> value; \<open>JNull\<close> is the missing value
  (\<^verbatim>\<open>None\<close>, \<^verbatim>\<open>NaN\<close>).
\<close>

record dataframe =
  columns :: "string list"
  rows :: "json list list"

text \<open>\<^verbatim>\<open>pd.DataFrame([d])\<close>: one row, the columns are the keys of \<open>d\<close> in their order.\<close>

definition DataFrame :: "dict \<Rightarrow> dataframe" where
  "DataFrame d = \<lparr>columns = map fst d, rows = [map snd d]\<rparr>"

text \<open>The cell of row \<open>r\<close> under the label \<open>c\<close>; null when the frame has no such column.\<close>

definition cell :: "string list \<Rightarrow> json list \<Rightarrow> string \<Rightarrow> json" where
  "cell cols r c = (case map_of (zip cols r) c of None \<Rightarrow> JNull | Some v \<Rightarrow> v)"

text \<open>\<^verbatim>\<open>df[col] = None\<close> for a label the frame does not have: a new last column.\<close>

definition add_null_column :: "dataframe \<Rightarrow> string \<Rightarrow> dataframe" where
  "add_null_column df col =
     \<lparr>columns = columns df @ [col], rows = map (\<lambda>r. r @ [JNull]) (rows df)\<rparr>"

text \<open>Lines 80 to 82.\<close>

fun ensure_columns :: "string list \<Rightarrow> dataframe \<Rightarrow> dataframe" where
  "ensure_columns [] new_record = new_record"
| "ensure_columns (col # cols) new_record =
     ensure_columns cols
       (if col \<notin> set (columns new_record) then add_null_column new_record col else new_record)"

text \<open>\<^verbatim>\<open>df[cols]\<close>: the listed columns in the listed order; \<^verbatim>\<open>KeyError\<close> on a missing label.\<close>

definition select_columns :: "dataframe \<Rightarrow> string list \<Rightarrow> py_exn + dataframe" where
  "select_columns df cols =
     (if set cols \<subseteq> set (columns df)
      then Inr \<lparr>columns = cols, rows = map (\<lambda>r. map (cell (columns df) r) cols) (rows df)\<rparr>
      else Inl KeyError)"

text \<open>
  \<^verbatim>\<open>pd.concat([a, b], ignore_index=True)\<close>: the columns of \<open>a\<close>, then those of \<open>b\<close> that
  \<open>a\<close> lacks; the rows of \<open>a\<close>, then the rows of \<open>b\<close>, each aligned to these columns by
  label.
\<close>

definition concat_frames :: "dataframe \<Rightarrow> dataframe \<Rightarrow> dataframe" where
  "concat_frames a b =
     (let cols = columns a @ filter (\<lambda>c. c \<notin> set (columns a)) (columns b)
      in \<lparr>columns = cols,
          rows = map (\<lambda>r. map (cell (columns a) r) cols) (rows a)
               @ map (\<lambda>r. map (cell (columns b) r) cols) (rows b)\<rparr>)"

subsection \<open>The workbook: what \<^verbatim>\<open>to_excel\<close> writes and \<^verbatim>\<open>read_excel\<close> reads\<close>

text \<open>
  The two pandas calls are library code. They are modelled from the library's
  documentation, as far as rows, columns and empty cells go:
  \<^item> the writer puts nothing into the cell of a missing value (\<^verbatim>\<open>None\<close>, \<^verbatim>\<open>NaN\<close>) or of
    an empty string, so rows at the end of the table whose cells are all of this kind do
    not exist in the sheet;
  \<^item> the reader takes the first row as the header, drops the empty rows at the end of
    the sheet, and reads an empty cell as a missing value;
  \<^item> what the reader makes of a cell that is not empty depends on the cell and on the
    other cells of its column (text that looks like a number becomes a number, the
    default \<^verbatim>\<open>na_values\<close> such as \<^verbatim>\<open>NA\<close> become missing values). This inference is not
    fixed here: it is the parameter \<open>infer\<close> of the environment, and the properties below
    hold for every such inference.
  A sheet is kept as a \<open>dataframe\<close>: its header and the rows of cells below it. A cell
  that is not empty holds the value it was written from (a list or a dictionary stands
  for the text the writer makes of it).
\<close>

definition blank :: "json \<Rightarrow> bool" where
  "blank v \<longleftrightarrow> v = JNull \<or> v = JStr []"

text \<open>The content of the cell written for a value.\<close>

definition written :: "json \<Rightarrow> json" where
  "written v = (if blank v then JNull else v)"

text \<open>The rows without the empty rows at the end.\<close>

definition trim_rows :: "json list list \<Rightarrow> json list list" where
  "trim_rows rs = rev (dropWhile (list_all blank) (rev rs))"

definition to_sheet :: "dataframe \<Rightarrow> dataframe" where
  "to_sheet df = \<lparr>columns = columns df, rows = trim_rows (map (map written) (rows df))\<rparr>"

definition column_cells :: "json list list \<Rightarrow> nat \<Rightarrow> json list" where
  "column_cells rs j = map (\<lambda>r. if j < length r then r ! j else JNull) rs"

definition read_sheet :: "(json list \<Rightarrow> json \<Rightarrow> json) \<Rightarrow> dataframe \<Rightarrow> dataframe" where
  "read_sheet reader sheet =
     (let rs = trim_rows (rows sheet)
      in \<lparr>columns = columns sheet,
          rows = map (\<lambda>r. map (\<lambda>(j, v). if blank v then JNull else reader (column_cells rs j) v)
                              (enumerate 0 r)) rs\<rparr>)"

text \<open>
  A write that fails. Either the file cannot be opened, and nothing happens to it; or the
  writer has opened the file, which empties it, has written the header and then the
  cells of the body column by column, and the error comes after \<open>n\<close> of these cells:
  \<^verbatim>\<open>to_excel\<close> closes the writer on its way out, which saves what was written so far.
\<close>

datatype write_outcome = Written | CannotOpen | FailsAfter nat

definition partial_sheet :: "nat \<Rightarrow> dataframe \<Rightarrow> dataframe" where
  "partial_sheet n df =
     (let height = length (rows df)
      in \<lparr>columns = columns df,
          rows = trim_rows
            (map (\<lambda>(i, r). map (\<lambda>(j, v). if j * height + i < n then written v else JNull)
                                  (enumerate 0 r))
                 (enumerate 0 (rows df)))\<rparr>)"

subsection \<open>The file and the functions on it\<close>

text \<open>
  \<open>disk\<close> is the sheet in \<^verbatim>\<open>kyc_database.xlsx\<close>, or \<open>None\<close> when the file does not exist.

  \<open>io\<close> is the environment of one call: whether the \<^verbatim>\<open>to_excel\<close> of line 61 can create
  the file, whether the \<^verbatim>\<open>read_excel\<close> of line 64 can read it, how the \<^verbatim>\<open>to_excel\<close> of
  line 90 ends, and the reader's inference on cells.
\<close>

record io =
  create_ok :: bool
  read_ok :: bool
  write_result :: write_outcome
  infer :: "json list \<Rightarrow> json \<Rightarrow> json"

type_synonym disk = "dataframe option"

text \<open>The functions return their value, the file afterwards and what they show.\<close>

definition create_excel_file :: "io \<Rightarrow> disk \<Rightarrow> (py_exn + dataframe) \<times> disk \<times> ui_event list" where
  "create_excel_file io disk =
     (case disk of
        None \<Rightarrow>
          (let df = \<lparr>columns = EXCEL_COLUMNS, rows = []\<rparr>
           in if create_ok io then (Inr df, Some (to_sheet df), [Success CreatedDatabase])
              else (Inl IOError, None, []))
      | Some sheet \<Rightarrow>
          if read_ok io then (Inr (read_sheet (infer io) sheet), disk, [])
          else (Inl IOError, disk, []))"

definition load_excel_data :: "io \<Rightarrow> disk \<Rightarrow> (py_exn + dataframe) \<times> disk \<times> ui_event list" where
  "load_excel_data io disk = create_excel_file io disk"

text \<open>Lines 70 to 96. Every exception ends in the \<^verbatim>\<open>except\<close> branch, which returns \<^verbatim>\<open>False\<close>.\<close>

definition save_to_excel :: "io \<Rightarrow> disk \<Rightarrow> dict \<Rightarrow> bool \<times> disk \<times> ui_event list" where
  "save_to_excel io disk data_dict =
     (case load_excel_data io disk of
        (Inl e, disk1, evs) \<Rightarrow> (False, disk1, evs @ [Error (SaveError e)])
      | (Inr df, disk1, evs) \<Rightarrow>
          (case select_columns (ensure_columns EXCEL_COLUMNS (DataFrame data_dict)) EXCEL_COLUMNS of
             Inl e \<Rightarrow> (False, disk1, evs @ [Error (SaveError e)])
           | Inr new_record \<Rightarrow>
               (let df' = concat_frames df new_record
                in case write_result io of
                     Written \<Rightarrow> (True, Some (to_sheet df'), evs @ [Success SavedData])
                   | CannotOpen \<Rightarrow> (False, disk1, evs @ [Error (SaveError IOError)])
                   | FailsAfter n \<Rightarrow>
                       (False, Some (partial_sheet n df'), evs @ [Error (SaveError IOError)]))))"

text \<open>
  Lines 98 to 108. The bytes returned are kept as the sheet written into the buffer: its
  name and its content.
\<close>

definition download_excel_file ::
  "io \<Rightarrow> disk \<Rightarrow> (string \<times> dataframe) option \<times> disk \<times> ui_event list" where
  "download_excel_file io disk =
     (case load_excel_data io disk of
        (Inl e, disk1, evs) \<Rightarrow> (None, disk1, evs @ [Error (DownloadError e)])
      | (Inr df, disk1, evs) \<Rightarrow> (Some (''KYC_Data'', to_sheet df), disk1, evs))"

text \<open>Lines 380 to 383: the download of the record being edited.\<close>

definition single_record_excel :: "dict \<Rightarrow> string \<times> dataframe" where
  "single_record_excel edited_data = (''KYC_Record'', to_sheet (DataFrame edited_data))"

subsection \<open>The edit form\<close>

text \<open>
  Lines 303 to 336 rebuild the record being edited on every run of the page, from the
  text inputs (\<open>text_input\<close> gives the current content of the input of a field).
\<close>

definition personal_info :: "string list" where
  "personal_info = [''name'', ''father_husband_name'', ''date_of_birth'', ''mobile_number'',
                    ''pan_number'', ''aadhar_number'']"

definition employment_info :: "string list" where
  "employment_info = [''control_number'', ''designation'', ''bill_unit_number'', ''department'',
                      ''sr_number'', ''date_of_appointment'']"

definition address_info :: "string list" where
  "address_info = [''office_address'', ''residential_address'']"

definition bank_info :: "string list" where
  "bank_info = [''bank_name'', ''branch_name'', ''branch_code'', ''account_number'', ''ifsc_code'']"

definition nominee_info :: "string list" where
  "nominee_info = [''nominee_name'', ''nominee_relation'', ''nominee_dob'', ''nominee_aadhar'',
                   ''nominee_pan'']"

fun create_form_section :: "dict \<Rightarrow> (string \<Rightarrow> string) \<Rightarrow> string list \<Rightarrow> dict \<Rightarrow> dict" where
  "create_form_section data_to_edit text_input [] edited = edited"
| "create_form_section data_to_edit text_input (field # fields') edited =
     create_form_section data_to_edit text_input fields'
       (if field \<in> set (map fst data_to_edit)
        then dict_set edited field (JStr (text_input field)) else edited)"

definition edit_form :: "dict \<Rightarrow> (string \<Rightarrow> string) \<Rightarrow> dict" where
  "edit_form data_to_edit text_input =
     (let e1 = create_form_section data_to_edit text_input personal_info [];
          e2 = create_form_section data_to_edit text_input employment_info e1;
          e3 = create_form_section data_to_edit text_input address_info e2;
          e4 = create_form_section data_to_edit text_input bank_info e3;
          e5 = create_form_section data_to_edit text_input nominee_info e4;
          e6 = dict_set e5 ''document_title'' (dict_get data_to_edit ''document_title'' JNull)
      in dict_set e6 ''society_name'' (dict_get data_to_edit ''society_name'' JNull))"

subsection \<open>Notions used to state the properties of the store\<close>

text \<open>
  The file as the program itself leaves it: absent, or a sheet with the schema's columns
  whose rows have one cell per column. \<open>create_excel_file\<close> establishes this and
  \<open>save_to_excel\<close> keeps it.
\<close>

definition store_ok :: "disk \<Rightarrow> bool" where
  "store_ok disk =
     (case disk of
        None \<Rightarrow> True
      | Some t \<Rightarrow> columns t = EXCEL_COLUMNS \<and> (\<forall>r \<in> set (rows t). length r = length EXCEL_COLUMNS))"

text \<open>The rows in the file.\<close>

definition stored_rows :: "disk \<Rightarrow> json list list" where
  "stored_rows disk = (case disk of None \<Rightarrow> [] | Some t \<Rightarrow> rows t)"

text \<open>The table the program holds after a successful load.\<close>

definition loaded :: "io \<Rightarrow> disk \<Rightarrow> dataframe" where
  "loaded io disk =
     (case disk of
        None \<Rightarrow> \<lparr>columns = EXCEL_COLUMNS, rows = []\<rparr>
      | Some sheet \<Rightarrow> read_sheet (infer io) sheet)"

definition aligned :: "dataframe \<Rightarrow> bool" where
  "aligned df \<longleftrightarrow> (\<forall>r \<in> set (rows df). length r = length (columns df))"

text \<open>
  A reader's inference that does what the documentation of \<^verbatim>\<open>read_excel\<close> says of the
  default \<^verbatim>\<open>na_values\<close>, for one of them: the text \<^verbatim>\<open>NA\<close> is read as a missing value. Used
  as an example of an inference.
\<close>

definition na_inference :: "json list \<Rightarrow> json \<Rightarrow> json" where
  "na_inference col v = (if v = JStr ''NA'' then JNull else v)"

text \<open>The values of a record under the columns of the schema, null for a key it lacks.\<close>

definition schema_row :: "dict \<Rightarrow> json list" where
  "schema_row d = map (\<lambda>c. dict_get d c JNull) EXCEL_COLUMNS"

section \<open>Facts about the loop\<close>

lemma try_model_calls: "calls (fst (try_model s m)) = calls s @ [fst m]"
  by (simp add: try_model_def model_failed_def Let_def split: sum.splits prod.splits)

lemma run_models_calls:
  "\<exists>k. k \<le> length ms \<and> calls (run_models ms s) = calls s @ take k (map fst ms)"
proof (induction ms arbitrary: s)
  case Nil
  then show ?case by simp
next
  case (Cons m ms)
  obtain s' b where step: "try_model s m = (s', b)" by (cases "try_model s m")
  have c: "calls s' = calls s @ [fst m]" using try_model_calls [of s m] step by simp
  show ?case
  proof (cases b)
    case True
    then have "calls (run_models (m # ms) s) = calls s @ take 1 (map fst (m # ms))"
      using step c by simp
    then show ?thesis by (intro exI [of _ 1]) simp
  next
    case False
    from Cons.IH [of s'] obtain k where
      k: "k \<le> length ms" "calls (run_models ms s') = calls s' @ take k (map fst ms)" by blast
    then have "calls (run_models (m # ms) s) = calls s @ take (Suc k) (map fst (m # ms))"
      using step c False by simp
    then show ?thesis using k(1) by (intro exI [of _ "Suc k"]) simp
  qed
qed

lemma report_failure_calls: "calls (report_failure s) = calls s"
  by (simp add: report_failure_def)

lemma report_failure_best_result: "best_result (report_failure s) = best_result s"
  by (simp add: report_failure_def)

text \<open>The value the function returns is the \<open>best_result\<close> the loop ends with.\<close>

lemma enhanced_gemini_extraction_run:
  "enhanced_gemini_extraction generate
     = best_result (run_models (map (\<lambda>n. (n, generate n)) models_to_try) initial)"
  by (simp add: enhanced_gemini_extraction_def extraction_run_def report_failure_best_result)

lemma try_model_Inl:
  "read_confidence (snd m) = Inl e \<Longrightarrow>
   try_model s m =
     (s\<lparr>errors := errors s @ [ModelFailed (fst m) e],
        ui := ui s @ [Write (TryingModel (fst m)), Warning (ModelFailed (fst m) e)],
        calls := calls s @ [fst m]\<rparr>, False)"
  by (simp add: try_model_def model_failed_def Let_def)

lemma try_model_Inr:
  "read_confidence (snd m) = Inr (d, c) \<Longrightarrow>
   try_model s m =
     ((if c > highest_confidence s
       then s\<lparr>highest_confidence := c,
              best_result := Some (dict_set d ''model_used'' (JStr (fst m)))\<rparr>
       else s)
      \<lparr>ui := ui s @ [Write (TryingModel (fst m))] @ (if c > 98 / 100 then [Write HighConfidence] else []),
        calls := calls s @ [fst m]\<rparr>, c > 98 / 100)"
  by (simp add: try_model_def Let_def)

text \<open>A confidence above 0.98 at position \<open>i\<close> ends the loop there at the latest.\<close>

lemma run_models_stops:
  "i < length ms \<Longrightarrow> read_confidence (snd (ms ! i)) = Inr (d, c) \<Longrightarrow> 98 / 100 < c \<Longrightarrow>
   length (calls (run_models ms s)) \<le> length (calls s) + Suc i"
proof (induction ms arbitrary: i s)
  case Nil
  then show ?case by simp
next
  case (Cons m ms)
  obtain s' b where step: "try_model s m = (s', b)" by (cases "try_model s m")
  have c: "calls s' = calls s @ [fst m]" using try_model_calls [of s m] step by simp
  show ?case
  proof (cases b)
    case True
    then show ?thesis using step c by simp
  next
    case False
    show ?thesis
    proof (cases i)
      case 0
      with Cons.prems have "try_model s m = (s', True)"
        using step by (simp add: try_model_Inr)
      with step False show ?thesis by simp
    next
      case (Suc i')
      with Cons.prems have "length (calls (run_models ms s')) \<le> length (calls s') + Suc i'"
        by (intro Cons.IH [of i' s']) simp_all
      then show ?thesis using step False c Suc by simp
    qed
  qed
qed

text \<open>Without such a confidence the loop calls every candidate.\<close>

lemma run_models_all_called:
  "\<forall>m \<in> set ms. \<forall>d c. read_confidence (snd m) = Inr (d, c) \<longrightarrow> c \<le> 98 / 100 \<Longrightarrow>
   calls (run_models ms s) = calls s @ map fst ms"
proof (induction ms arbitrary: s)
  case Nil
  then show ?case by simp
next
  case (Cons m ms)
  obtain s' b where step: "try_model s m = (s', b)" by (cases "try_model s m")
  have c: "calls s' = calls s @ [fst m]" using try_model_calls [of s m] step by simp
  have "\<not> b"
  proof (cases "read_confidence (snd m)")
    case (Inl e)
    then show ?thesis using step by (simp add: try_model_Inl)
  next
    case (Inr p)
    obtain d c where "p = (d, c)" by (cases p)
    with Inr Cons.prems have "read_confidence (snd m) = Inr (d, c)" "c \<le> 98 / 100" by auto
    then show ?thesis using step by (simp add: try_model_Inr)
  qed
  moreover have "calls (run_models ms s') = calls s' @ map fst ms"
    using Cons.prems by (intro Cons.IH) simp
  ultimately show ?case using step c by simp
qed

subsection \<open>The invariant of the loop\<close>

lemma chosen_initial: "chosen [] initial"
  by (simp add: chosen_def bounded_by_def initial_def)

lemma bounded_by_snoc:
  "bounded_by (ps @ [m]) h \<longleftrightarrow>
     bounded_by ps h \<and> (\<forall>d c. read_confidence (snd m) = Inr (d, c) \<longrightarrow> c \<le> h)"
proof
  assume a: "bounded_by (ps @ [m]) h"
  have "bounded_by ps h"
    unfolding bounded_by_def
  proof (intro allI impI)
    fix j d c
    assume "j < length ps \<and> read_confidence (snd (ps ! j)) = Inr (d, c)"
    then have "j < length (ps @ [m]) \<and> read_confidence (snd ((ps @ [m]) ! j)) = Inr (d, c)"
      by (simp add: nth_append)
    then show "c \<le> h" using a unfolding bounded_by_def by blast
  qed
  moreover have "\<forall>d c. read_confidence (snd m) = Inr (d, c) \<longrightarrow> c \<le> h"
  proof (intro allI impI)
    fix d c
    assume "read_confidence (snd m) = Inr (d, c)"
    then have "length ps < length (ps @ [m])
        \<and> read_confidence (snd ((ps @ [m]) ! length ps)) = Inr (d, c)"
      by simp
    then show "c \<le> h" using a unfolding bounded_by_def by blast
  qed
  ultimately show "bounded_by ps h \<and> (\<forall>d c. read_confidence (snd m) = Inr (d, c) \<longrightarrow> c \<le> h)"
    by blast
next
  assume "bounded_by ps h \<and> (\<forall>d c. read_confidence (snd m) = Inr (d, c) \<longrightarrow> c \<le> h)"
  then show "bounded_by (ps @ [m]) h"
    by (auto simp: bounded_by_def nth_append less_Suc_eq)
qed

lemma bounded_by_mono: "bounded_by ps h \<Longrightarrow> h \<le> h' \<Longrightarrow> bounded_by ps h'"
  by (fastforce simp: bounded_by_def)

lemma first_best_snoc: "first_best ps i d c \<Longrightarrow> first_best (ps @ [m]) i d c"
  by (auto simp: first_best_def nth_append)

lemma first_best_new:
  assumes "bounded_by ps h" and "h < c" and "read_confidence (snd m) = Inr (d, c)"
  shows "first_best (ps @ [m]) (length ps) d c"
proof -
  have "c' < c" if "j < length ps" "read_confidence (snd (ps ! j)) = Inr (d', c')" for j d' c'
  proof -
    have "c' \<le> h" using assms(1) that unfolding bounded_by_def by blast
    with assms(2) show ?thesis by simp
  qed
  then show ?thesis using assms(3) by (auto simp: first_best_def nth_append)
qed

lemma chosen_unchanged:
  assumes "chosen ps s" and "\<forall>d c. read_confidence (snd m) = Inr (d, c) \<longrightarrow> c \<le> highest_confidence s"
    and "best_result s' = best_result s" and "highest_confidence s' = highest_confidence s"
    and "calls s' = calls s @ [fst m]"
  shows "chosen (ps @ [m]) s'"
proof (cases "best_result s")
  case None
  then show ?thesis using assms by (auto simp: chosen_def bounded_by_snoc)
next
  case (Some r)
  with assms(1) obtain i d where
    b: "first_best ps i d (highest_confidence s)" "r = dict_set d ''model_used'' (JStr (fst (ps ! i)))"
    by (auto simp: chosen_def)
  from b(1) have "i < length ps" by (simp add: first_best_def)
  then have "(ps @ [m]) ! i = ps ! i" by (simp add: nth_append)
  with b have "first_best (ps @ [m]) i d (highest_confidence s)
          \<and> r = dict_set d ''model_used'' (JStr (fst ((ps @ [m]) ! i)))"
    using first_best_snoc [OF b(1), of m] by simp
  then have "\<exists>i d. first_best (ps @ [m]) i d (highest_confidence s)
          \<and> r = dict_set d ''model_used'' (JStr (fst ((ps @ [m]) ! i)))"
    by blast
  then show ?thesis using assms Some by (simp add: chosen_def bounded_by_snoc)
qed

lemma chosen_fail:
  assumes "chosen ps s" and "read_confidence (snd m) = Inl e"
  shows "chosen (ps @ [m]) (fst (try_model s m))"
  using assms by (intro chosen_unchanged [OF assms(1)]) (simp_all add: try_model_Inl)

lemma chosen_keep:
  assumes "chosen ps s" and "read_confidence (snd m) = Inr (d, c)" and "\<not> highest_confidence s < c"
  shows "chosen (ps @ [m]) (fst (try_model s m))"
  using assms by (intro chosen_unchanged [OF assms(1)]) (simp_all add: try_model_Inr)

lemma chosen_replace:
  assumes "chosen ps s" and "read_confidence (snd m) = Inr (d, c)" and "highest_confidence s < c"
  shows "chosen (ps @ [m]) (fst (try_model s m))"
proof -
  have b: "bounded_by ps (highest_confidence s)" using assms(1) by (simp add: chosen_def)
  have le: "- 1 \<le> highest_confidence s"
    using assms(1) by (auto simp: chosen_def split: option.splits)
  have "first_best (ps @ [m]) (length ps) d c" using b assms(3,2) by (rule first_best_new)
  then have "\<exists>i d'. first_best (ps @ [m]) i d' c
      \<and> dict_set d ''model_used'' (JStr (fst m)) = dict_set d' ''model_used'' (JStr (fst ((ps @ [m]) ! i)))"
    by (intro exI [of _ "length ps"] exI [of _ d]) simp
  moreover have "bounded_by (ps @ [m]) c"
    using bounded_by_mono [OF b, of c] assms(2,3) by (simp add: bounded_by_snoc)
  moreover have "calls s = map fst ps" using assms(1) by (simp add: chosen_def)
  ultimately show ?thesis
    using assms(2,3) le by (simp add: try_model_Inr chosen_def)
qed

lemma chosen_step: "chosen ps s \<Longrightarrow> chosen (ps @ [m]) (fst (try_model s m))"
proof (cases "read_confidence (snd m)")
  case (Inl e)
  assume "chosen ps s"
  then show ?thesis using Inl by (rule chosen_fail)
next
  case (Inr p)
  assume c: "chosen ps s"
  obtain d c' where p: "p = (d, c')" by (cases p)
  show ?thesis
    using c Inr p by (cases "highest_confidence s < c'") (auto intro: chosen_keep chosen_replace)
qed

lemma chosen_run:
  "chosen ps s \<Longrightarrow> \<exists>k. k \<le> length ms \<and> chosen (ps @ take k ms) (run_models ms s)"
proof (induction ms arbitrary: ps s)
  case Nil
  then show ?case by simp
next
  case (Cons m ms)
  obtain s' b where step: "try_model s m = (s', b)" by (cases "try_model s m")
  have c: "chosen (ps @ [m]) s'" using chosen_step [OF Cons.prems, of m] step by simp
  show ?case
  proof (cases b)
    case True
    then have "chosen (ps @ take 1 (m # ms)) (run_models (m # ms) s)" using step c by simp
    then show ?thesis by (intro exI [of _ 1]) simp
  next
    case False
    from Cons.IH [OF c] obtain k where
      k: "k \<le> length ms" "chosen ((ps @ [m]) @ take k ms) (run_models ms s')" by blast
    then have "chosen (ps @ take (Suc k) (m # ms)) (run_models (m # ms) s)"
      using step False by simp
    then show ?thesis using k(1) by (intro exI [of _ "Suc k"]) simp
  qed
qed

lemma chosen_final:
  "\<exists>k. k \<le> length ms \<and> length (calls (run_models ms initial)) = k
       \<and> chosen (take k ms) (run_models ms initial)"
proof -
  from chosen_run [OF chosen_initial, of ms] obtain k where
    k: "k \<le> length ms" "chosen (take k ms) (run_models ms initial)" by auto
  then have "length (calls (run_models ms initial)) = k" by (simp add: chosen_def)
  with k show ?thesis by blast
qed

lemma map_of_dict_set: "map_of (dict_set d k v) k = Some v"
  by (induction d) auto

subsection \<open>Runs in which every call fails\<close>

lemma warnings_append: "warnings (xs @ ys) = warnings xs @ warnings ys"
  by (induction xs rule: warnings.induct) simp_all

lemma all_fail_run:
  "\<forall>m \<in> set ms. \<exists>e. read_confidence (snd m) = Inl e \<Longrightarrow>
   best_result (run_models ms s) = best_result s
   \<and> (\<exists>es. errors (run_models ms s) = errors s @ es \<and> list_all2 failure_message es ms
         \<and> warnings (ui (run_models ms s)) = warnings (ui s) @ es)"
proof (induction ms arbitrary: s)
  case Nil
  then show ?case by simp
next
  case (Cons m ms)
  from Cons.prems obtain e where e: "read_confidence (snd m) = Inl e" by auto
  define s' where "s' = s\<lparr>errors := errors s @ [ModelFailed (fst m) e],
        ui := ui s @ [Write (TryingModel (fst m)), Warning (ModelFailed (fst m) e)],
        calls := calls s @ [fst m]\<rparr>"
  have run: "run_models (m # ms) s = run_models ms s'"
    using e by (simp add: try_model_Inl s'_def)
  from Cons.prems have "\<forall>m \<in> set ms. \<exists>e. read_confidence (snd m) = Inl e" by simp
  from Cons.IH [OF this, of s'] obtain es where
    es: "best_result (run_models ms s') = best_result s'"
        "errors (run_models ms s') = errors s' @ es" "list_all2 failure_message es ms"
        "warnings (ui (run_models ms s')) = warnings (ui s') @ es" by blast
  have fm: "failure_message (ModelFailed (fst m) e) m" using e by (simp add: failure_message_def)
  have "errors (run_models (m # ms) s) = errors s @ (ModelFailed (fst m) e # es)
      \<and> list_all2 failure_message (ModelFailed (fst m) e # es) (m # ms)
      \<and> warnings (ui (run_models (m # ms) s)) = warnings (ui s) @ (ModelFailed (fst m) e # es)"
    using es fm run by (simp add: s'_def warnings_append)
  then have "\<exists>es. errors (run_models (m # ms) s) = errors s @ es
      \<and> list_all2 failure_message es (m # ms)
      \<and> warnings (ui (run_models (m # ms) s)) = warnings (ui s) @ es"
    by blast
  moreover have "best_result (run_models (m # ms) s) = best_result s"
    using es(1) run by (simp add: s'_def)
  ultimately show ?case by blast
qed

text \<open>The equations that evaluate a run on given outcomes.\<close>

lemmas run_eval =
  enhanced_gemini_extraction_def extraction_run_def report_failure_def models_to_try_def
  try_model_def model_failed_def read_confidence_def dict_get_def py_or_def initial_def Let_def

section \<open>Facts about the store\<close>

lemma distinct_EXCEL_COLUMNS: "distinct EXCEL_COLUMNS"
  by (simp add: EXCEL_COLUMNS_def)

lemma cell_absent: "length r = length cols \<Longrightarrow> c \<notin> set cols \<Longrightarrow> cell cols r c = JNull"
proof -
  assume a: "length r = length cols" "c \<notin> set cols"
  then have "map_of (zip cols r) c = None"
    by (simp add: map_of_zip_is_None)
  then show ?thesis by (simp add: cell_def)
qed

lemma cell_snoc:
  assumes "length r = length cols" and "col \<notin> set cols"
  shows "cell (cols @ [col]) (r @ [JNull]) c = cell cols r c"
proof (cases "c \<in> set cols")
  case True
  then have "c \<in> dom (map_of (zip cols r))" using assms(1) by simp
  then show ?thesis using assms(1) by (auto simp: cell_def map_add_dom_app_simps split: option.splits)
next
  case False
  then have "cell cols r c = JNull" using assms(1) by (simp add: cell_absent)
  moreover have n: "map_of (zip cols r) c = None"
    using False assms(1) by (simp add: map_of_zip_is_None)
  have "cell (cols @ [col]) (r @ [JNull]) c = JNull"
    using assms(1) by (simp add: cell_def map_add_def n)
  ultimately show ?thesis by simp
qed

lemma cell_self:
  assumes "distinct cols" and "length r = length cols"
  shows "map (cell cols r) cols = r"
proof (rule nth_equalityI)
  show "length (map (cell cols r) cols) = length r" using assms(2) by simp
next
  fix i assume "i < length (map (cell cols r) cols)"
  then have i: "i < length r" using assms(2) by simp
  have "map_of (zip cols r) (cols ! i) = Some (r ! i)"
    using assms i by (intro map_of_zip_nth) simp_all
  then show "map (cell cols r) cols ! i = r ! i" using i assms(2) by (simp add: cell_def)
qed

lemma aligned_add_null_column: "aligned df \<Longrightarrow> aligned (add_null_column df col)"
  by (simp add: aligned_def add_null_column_def)

lemma cells_add_null_column:
  assumes "aligned df" and "col \<notin> set (columns df)"
  shows "map (cell (columns (add_null_column df col))) (rows (add_null_column df col))
           = map (cell (columns df)) (rows df)"
proof -
  have "cell (columns df @ [col]) (r @ [JNull]) = cell (columns df) r" if "r \<in> set (rows df)" for r
  proof
    fix c
    have "length r = length (columns df)" using assms(1) that by (simp add: aligned_def)
    then show "cell (columns df @ [col]) (r @ [JNull]) c = cell (columns df) r c"
      using assms(2) by (rule cell_snoc)
  qed
  then show ?thesis by (simp add: add_null_column_def)
qed

text \<open>Lines 80 to 82 add the missing columns and change no cell that was there.\<close>

lemma ensure_columns_cells:
  "aligned nr \<Longrightarrow>
   aligned (ensure_columns cols nr)
   \<and> set (columns (ensure_columns cols nr)) = set (columns nr) \<union> set cols
   \<and> map (cell (columns (ensure_columns cols nr))) (rows (ensure_columns cols nr))
       = map (cell (columns nr)) (rows nr)"
proof (induction cols arbitrary: nr)
  case Nil
  then show ?case by simp
next
  case (Cons col cols)
  show ?case
  proof (cases "col \<in> set (columns nr)")
    case True
    then show ?thesis using Cons.IH [OF Cons.prems] by auto
  next
    case False
    let ?nr = "add_null_column nr col"
    have a: "aligned ?nr" using Cons.prems by (rule aligned_add_null_column)
    have c: "map (cell (columns ?nr)) (rows ?nr) = map (cell (columns nr)) (rows nr)"
      using Cons.prems False by (rule cells_add_null_column)
    have s: "set (columns ?nr) = insert col (set (columns nr))" by (simp add: add_null_column_def)
    from Cons.IH [OF a] c s False show ?thesis by auto
  qed
qed

lemma cell_DataFrame: "cell (map fst d) (map snd d) c = dict_get d c JNull"
  by (simp add: cell_def dict_get_def zip_map_fst_snd)

text \<open>Lines 77 to 84: the record coerced to the given columns.\<close>

lemma coerce_record:
  "select_columns (ensure_columns cols (DataFrame d)) cols
     = Inr \<lparr>columns = cols, rows = [map (\<lambda>c. dict_get d c JNull) cols]\<rparr>"
proof -
  let ?nr = "ensure_columns cols (DataFrame d)"
  have al: "aligned (DataFrame d)" by (simp add: aligned_def DataFrame_def)
  from ensure_columns_cells [OF al, of cols] have
    sub: "set cols \<subseteq> set (columns ?nr)" and
    cells: "map (cell (columns ?nr)) (rows ?nr) = [cell (map fst d) (map snd d)]"
    by (auto simp: DataFrame_def)
  have "map (\<lambda>r. map (cell (columns ?nr) r) cols) (rows ?nr)
          = map (\<lambda>f. map f cols) (map (cell (columns ?nr)) (rows ?nr))"
    by (simp add: comp_def)
  also have "\<dots> = [map (\<lambda>c. dict_get d c JNull) cols]"
    by (simp add: cells cell_DataFrame)
  finally show ?thesis using sub by (simp add: select_columns_def)
qed

lemma concat_same_columns:
  assumes "columns a = cols" and "columns b = cols" and "distinct cols"
    and "aligned a" and "aligned b"
  shows "concat_frames a b = \<lparr>columns = cols, rows = rows a @ rows b\<rparr>"
proof -
  have f: "filter (\<lambda>c. c \<notin> set cols) cols = []" by (simp add: filter_empty_conv)
  have ra: "map (\<lambda>r. map (cell cols r) cols) (rows a) = rows a"
    using assms(1,3,4) by (intro map_idI cell_self) (simp_all add: aligned_def)
  have rb: "map (\<lambda>r. map (cell cols r) cols) (rows b) = rows b"
    using assms(2,3,5) by (intro map_idI cell_self) (simp_all add: aligned_def)
  show ?thesis using assms(1,2) f ra rb by (simp add: concat_frames_def)
qed

subsection \<open>The workbook\<close>

lemma blank_written: "blank (written v) = blank v"
  by (simp add: written_def blank_def)

lemma written_blank: "blank v \<Longrightarrow> written v = JNull"
  by (simp add: written_def)

lemma blank_row_written: "list_all blank (map written r) = list_all blank r"
  by (simp add: list_all_iff blank_written)

lemma trim_rows_Nil: "trim_rows [] = []"
  by (simp add: trim_rows_def)

lemma trim_rows_snoc: "\<not> list_all blank r \<Longrightarrow> trim_rows (rs @ [r]) = rs @ [r]"
  by (simp add: trim_rows_def)

lemma trim_rows_blank_snoc: "list_all blank r \<Longrightarrow> trim_rows (rs @ [r]) = trim_rows rs"
  by (simp add: trim_rows_def)

lemma trim_rows_id: "rs = [] \<or> \<not> list_all blank (last rs) \<Longrightarrow> trim_rows rs = rs"
proof (cases rs rule: rev_cases)
  case Nil
  then show ?thesis by (simp add: trim_rows_Nil)
next
  case (snoc ys y)
  assume "rs = [] \<or> \<not> list_all blank (last rs)"
  with snoc show ?thesis by (simp add: trim_rows_snoc)
qed


lemma set_trim_rows: "set (trim_rows rs) \<subseteq> set rs"
proof
  fix r assume "r \<in> set (trim_rows rs)"
  then have "r \<in> set (dropWhile (list_all blank) (rev rs))" by (simp add: trim_rows_def)
  then have "r \<in> set (rev rs)" by (rule set_dropWhileD)
  then show "r \<in> set rs" by simp
qed

lemma length_trim_rows: "length (trim_rows rs) \<le> length rs"
proof -
  have "length (dropWhile (list_all blank) (rev rs)) \<le> length (rev rs)"
    by (rule length_dropWhile_le)
  then show ?thesis by (simp add: trim_rows_def)
qed

lemma trim_rows_idem: "trim_rows (trim_rows rs) = trim_rows rs"
proof (induction rs rule: rev_induct)
  case Nil
  then show ?case by (simp add: trim_rows_Nil)
next
  case (snoc r rs)
  then show ?case
    by (cases "list_all blank r") (simp_all add: trim_rows_snoc trim_rows_blank_snoc)
qed

lemma columns_to_sheet: "columns (to_sheet df) = columns df"
  by (simp add: to_sheet_def)

lemma to_sheet_empty:
  "to_sheet \<lparr>columns = cols, rows = []\<rparr> = \<lparr>columns = cols, rows = []\<rparr>"
  by (simp add: to_sheet_def trim_rows_Nil)

lemma aligned_to_sheet:
  assumes "\<forall>r \<in> set (rows df). length r = n"
  shows "\<forall>r \<in> set (rows (to_sheet df)). length r = n"
proof
  fix r assume "r \<in> set (rows (to_sheet df))"
  then have "r \<in> set (map (map written) (rows df))"
    using set_trim_rows [of "map (map written) (rows df)"] by (auto simp: to_sheet_def)
  with assms show "length r = n" by auto
qed

lemma columns_read_sheet: "columns (read_sheet f sheet) = columns sheet"
  by (simp add: read_sheet_def Let_def)

lemma length_rows_read_sheet:
  "length (rows (read_sheet f sheet)) = length (trim_rows (rows sheet))"
  by (simp add: read_sheet_def Let_def)

text \<open>Reading keeps the length of a row and reads an empty cell as a missing value.\<close>

lemma rows_read_sheet_nth:
  assumes "i < length (trim_rows (rows sheet))"
  shows "length (rows (read_sheet f sheet) ! i) = length (trim_rows (rows sheet) ! i)
     \<and> (\<forall>j < length (trim_rows (rows sheet) ! i).
           blank (trim_rows (rows sheet) ! i ! j) \<longrightarrow> rows (read_sheet f sheet) ! i ! j = JNull)"
  using assms by (simp add: read_sheet_def Let_def nth_enumerate_eq)

lemma aligned_read_sheet:
  assumes "\<forall>r \<in> set (rows sheet). length r = n"
  shows "\<forall>r \<in> set (rows (read_sheet f sheet)). length r = n"
proof
  fix r assume "r \<in> set (rows (read_sheet f sheet))"
  then obtain r' where "r' \<in> set (trim_rows (rows sheet))" "length r = length r'"
    by (auto simp: read_sheet_def Let_def)
  with assms set_trim_rows [of "rows sheet"] show "length r = n" by auto
qed


subsection \<open>Load and save\<close>

lemma loaded_ok:
  assumes "store_ok disk"
  shows "columns (loaded io disk) = EXCEL_COLUMNS \<and> aligned (loaded io disk)"
proof (cases disk)
  case None
  then show ?thesis by (simp add: loaded_def aligned_def)
next
  case (Some sheet)
  with assms have c: "columns sheet = EXCEL_COLUMNS"
    and a: "\<forall>r \<in> set (rows sheet). length r = length EXCEL_COLUMNS"
    by (simp_all add: store_ok_def)
  from aligned_read_sheet [OF a] c Some show ?thesis
    by (simp add: loaded_def aligned_def columns_read_sheet)
qed

lemma load_excel_data_cases:
  "load_excel_data io disk = (res, disk1, evs) \<Longrightarrow>
     (\<exists>e. res = Inl e \<and> disk1 = disk)
   \<or> (res = Inr (loaded io disk)
        \<and> (disk1 = disk \<or> disk = None \<and> disk1 = Some \<lparr>columns = EXCEL_COLUMNS, rows = []\<rparr>))"
  by (auto simp: load_excel_data_def create_excel_file_def loaded_def to_sheet_empty Let_def
      split: option.splits if_splits)

lemma load_excel_data_succeeds:
  assumes "disk = None \<longrightarrow> create_ok io" and "disk \<noteq> None \<longrightarrow> read_ok io"
  shows "load_excel_data io disk =
     (Inr (loaded io disk),
      (case disk of None \<Rightarrow> Some \<lparr>columns = EXCEL_COLUMNS, rows = []\<rparr> | Some sheet \<Rightarrow> disk),
      (case disk of None \<Rightarrow> [Success CreatedDatabase] | Some sheet \<Rightarrow> []))"
  using assms
  by (auto simp: load_excel_data_def create_excel_file_def loaded_def to_sheet_empty Let_def
      split: option.splits)

text \<open>The frame line 87 builds, on a store as the program leaves it.\<close>

lemma concat_loaded:
  assumes "store_ok disk"
  shows "concat_frames (loaded io disk) \<lparr>columns = EXCEL_COLUMNS, rows = [schema_row d]\<rparr>
     = \<lparr>columns = EXCEL_COLUMNS, rows = rows (loaded io disk) @ [schema_row d]\<rparr>"
proof -
  let ?new = "\<lparr>columns = EXCEL_COLUMNS, rows = [schema_row d]\<rparr>"
  have "aligned ?new" by (simp add: aligned_def schema_row_def)
  with loaded_ok [OF assms, of io]
  have "concat_frames (loaded io disk) ?new
      = \<lparr>columns = EXCEL_COLUMNS, rows = rows (loaded io disk) @ rows ?new\<rparr>"
    by (intro concat_same_columns distinct_EXCEL_COLUMNS) simp_all
  then show ?thesis by simp
qed

text \<open>Every way \<^verbatim>\<open>save_to_excel\<close> can end.\<close>

lemma save_to_excel_result:
  "save_to_excel io disk d = (b, disk', evs) \<Longrightarrow>
     (\<exists>e evs1. \<not> b \<and> load_excel_data io disk = (Inl e, disk', evs1)
         \<and> evs = evs1 @ [Error (SaveError e)])
   \<or> (\<exists>disk1 evs1. load_excel_data io disk = (Inr (loaded io disk), disk1, evs1)
        \<and> (case write_result io of
              Written \<Rightarrow> b \<and> evs = evs1 @ [Success SavedData]
                \<and> disk' = Some (to_sheet (concat_frames (loaded io disk)
                              \<lparr>columns = EXCEL_COLUMNS, rows = [schema_row d]\<rparr>))
            | CannotOpen \<Rightarrow> \<not> b \<and> evs = evs1 @ [Error (SaveError IOError)] \<and> disk' = disk1
            | FailsAfter n \<Rightarrow> \<not> b \<and> evs = evs1 @ [Error (SaveError IOError)]
                \<and> disk' = Some (partial_sheet n (concat_frames (loaded io disk)
                              \<lparr>columns = EXCEL_COLUMNS, rows = [schema_row d]\<rparr>))))"
proof -
  assume s: "save_to_excel io disk d = (b, disk', evs)"
  obtain res disk1 evs1 where l: "load_excel_data io disk = (res, disk1, evs1)"
    by (cases "load_excel_data io disk")
  show ?thesis
  proof (cases res)
    case (Inl e)
    with s l show ?thesis by (auto simp: save_to_excel_def)
  next
    case (Inr df)
    with load_excel_data_cases [OF l] have df: "df = loaded io disk" by auto
    with s l Inr show ?thesis
      by (cases "write_result io")
         (auto simp: save_to_excel_def coerce_record schema_row_def Let_def)
  qed
qed

text \<open>The append when every call on the file succeeds.\<close>

lemma save_to_excel_written:
  assumes "store_ok disk"
    and "disk = None \<longrightarrow> create_ok io" and "disk \<noteq> None \<longrightarrow> read_ok io"
    and "write_result io = Written"
  shows "save_to_excel io disk d =
     (True,
      Some (to_sheet \<lparr>columns = EXCEL_COLUMNS, rows = rows (loaded io disk) @ [schema_row d]\<rparr>),
      (case disk of None \<Rightarrow> [Success CreatedDatabase] | Some sheet \<Rightarrow> []) @ [Success SavedData])"
  using load_excel_data_succeeds [OF assms(2,3)] assms(4) concat_loaded [OF assms(1), of io d]
  by (simp add: save_to_excel_def coerce_record schema_row_def Let_def)

text \<open>The equations that evaluate a sheet.\<close>

lemmas sheet_eval =
  loaded_def read_sheet_def to_sheet_def trim_rows_def blank_def written_def na_inference_def
  schema_row_def dict_get_def store_ok_def stored_rows_def Let_def

section \<open>Properties of the extraction loop\<close>

subsection \<open>Order and number of backend calls\<close>

text \<open>
  C7. The backends called are an initial segment of the candidate list, in the list's
  order: every position of the list is called at most once, none is called again after
  it returned, whether it failed or succeeded, and there are at most as many calls as
  candidates. The same holds for the function with its own two candidates.
\<close>

theorem calls_are_initial_segment:
  "(\<exists>k. k \<le> length ms \<and> calls (run_models ms initial) = take k (map fst ms))
   \<and> (\<exists>k. k \<le> length models_to_try \<and> calls (extraction_run generate) = take k models_to_try)"
proof -
  have a: "\<exists>k. k \<le> length ms \<and> calls (run_models ms initial) = take k (map fst ms)" for ms
    using run_models_calls [of ms initial] by (simp add: initial_def)
  have "\<exists>k. k \<le> length models_to_try \<and> calls (extraction_run generate) = take k models_to_try"
    using a [of "map (\<lambda>n. (n, generate n)) models_to_try"]
    by (simp add: extraction_run_def report_failure_calls comp_def)
  with a show ?thesis by blast
qed

text \<open>
  Two runs: both candidates fail and both are called, in order; the first candidate is
  fully confident and the second is never called.
\<close>

theorem calls_are_initial_segment_witness:
  "calls (extraction_run (\<lambda>n. Raised ''quota exceeded''))
     = [''gemini-1.5-pro-latest'', ''gemini-1.5-flash-latest'']
   \<and> calls (run_models [(''pro'', Parsed (JObj [(''confidence_score'', JNum 1)])),
                        (''flash'', Raised ''quota exceeded'')] initial)
     = [''pro'']"
  using calls_are_initial_segment
    [of "[(''pro'', Parsed (JObj [(''confidence_score'', JNum 1)])),
          (''flash'', Raised ''quota exceeded'')]" "\<lambda>n. Raised ''quota exceeded''"]
  by (simp add: run_eval)

subsection \<open>Early exit\<close>

text \<open>
  C5. If the candidate at position \<open>i\<close> answers with a defaulted confidence strictly
  above 0.98, no candidate after position \<open>i\<close> is called: the calls made are the first
  \<open>k\<close> candidates for some \<open>k \<le> i + 1\<close>.
\<close>

theorem early_exit_stops_calls:
  assumes "i < length ms" and "read_confidence (snd (ms ! i)) = Inr (d, c)" and "98 / 100 < c"
  shows "\<exists>k. k \<le> Suc i \<and> calls (run_models ms initial) = take k (map fst ms)"
proof -
  from run_models_calls [of ms initial] obtain k where
    k: "k \<le> length ms" "calls (run_models ms initial) = take k (map fst ms)"
    by (auto simp: initial_def)
  have "length (calls (run_models ms initial)) \<le> Suc i"
    using run_models_stops [OF assms, of initial] by (simp add: initial_def)
  with k have "k \<le> Suc i" by simp
  with k(2) show ?thesis by blast
qed

text \<open>The first candidate answers 0.99; the second, which would answer 1, is not called.\<close>

theorem early_exit_stops_calls_witness:
  "read_confidence (Parsed (JObj [(''confidence_score'', JNum (99 / 100))]))
     = Inr ([(''confidence_score'', JNum (99 / 100))], 99 / 100)
   \<and> calls (run_models [(''pro'', Parsed (JObj [(''confidence_score'', JNum (99 / 100))])),
                        (''flash'', Parsed (JObj [(''confidence_score'', JNum 1)]))] initial)
     = [''pro'']"
  using early_exit_stops_calls [of 0
     "[(''pro'', Parsed (JObj [(''confidence_score'', JNum (99 / 100))])),
       (''flash'', Parsed (JObj [(''confidence_score'', JNum 1)]))]"
     "[(''confidence_score'', JNum (99 / 100))]" "99 / 100"]
  by (simp add: read_confidence_def dict_get_def py_or_def try_model_def initial_def Let_def)

subsection \<open>Default confidence and ties\<close>

text \<open>
  C6. A response without the key \<^verbatim>\<open>confidence_score\<close>, or with \<^verbatim>\<open>null\<close> under it, is
  compared with confidence 0.0; and an iteration whose confidence equals the current
  \<^verbatim>\<open>highest_confidence\<close> leaves \<^verbatim>\<open>best_result\<close> (and \<^verbatim>\<open>highest_confidence\<close>) as they
  were, so the earlier result stays.
\<close>

theorem default_and_tie:
  "((map_of d ''confidence_score'' = None \<or> map_of d ''confidence_score'' = Some JNull)
      \<longrightarrow> read_confidence (Parsed (JObj d)) = Inr (d, 0))
   \<and> (read_confidence (snd m) = Inr (d', highest_confidence s)
      \<longrightarrow> best_result (fst (try_model s m)) = best_result s
          \<and> highest_confidence (fst (try_model s m)) = highest_confidence s)"
  by (auto simp: read_confidence_def dict_get_def py_or_def try_model_Inr)

text \<open>
  The first candidate answers without a confidence and is kept with 0.0; the second
  answers \<^verbatim>\<open>null\<close>, ties at 0.0 and does not replace it.
\<close>

theorem default_and_tie_witness:
  "map_of [(''name'', JStr ''x'')] ''confidence_score'' = None
   \<and> read_confidence (Parsed (JObj [(''name'', JStr ''x'')])) = Inr ([(''name'', JStr ''x'')], 0)
   \<and> read_confidence (snd (''flash'', Parsed (JObj [(''confidence_score'', JNull)])))
       = Inr ([(''confidence_score'', JNull)],
              highest_confidence (fst (try_model initial (''pro'', Parsed (JObj [(''name'', JStr ''x'')])))))
   \<and> best_result (fst (try_model (fst (try_model initial (''pro'', Parsed (JObj [(''name'', JStr ''x'')]))))
                         (''flash'', Parsed (JObj [(''confidence_score'', JNull)]))))
       = Some [(''name'', JStr ''x''), (''model_used'', JStr ''pro'')]"
  using default_and_tie [of "[(''name'', JStr ''x'')]"
      "(''flash'', Parsed (JObj [(''confidence_score'', JNull)]))"
      "[(''confidence_score'', JNull)]"
      "fst (try_model initial (''pro'', Parsed (JObj [(''name'', JStr ''x'')])))"]
  by (simp add: run_eval)

subsection \<open>Which result is returned\<close>

text \<open>
  C1, as the code has it. When the loop ends with a record, the record is the answer of
  one of the candidates that were called, with \<^verbatim>\<open>model_used\<close> set to that candidate's
  name; its defaulted confidence is the largest among the successful candidates that were
  called, and every earlier successful call has a strictly smaller one (first seen
  wins). The candidates called are all of them when no confidence exceeds 0.98. A
  candidate after an answer above 0.98 is not called and cannot be chosen, whatever it
  would have answered, so the maximum is not over all candidates of the list.
\<close>

theorem best_result_first_maximum_of_called:
  assumes "best_result (run_models ms initial) = Some r"
  shows "(\<exists>i d c. i < length (calls (run_models ms initial)) \<and> i < length ms
            \<and> read_confidence (snd (ms ! i)) = Inr (d, c)
            \<and> r = dict_set d ''model_used'' (JStr (fst (ms ! i)))
            \<and> map_of r ''model_used'' = Some (JStr (fst (ms ! i)))
            \<and> (\<forall>j d' c'. j < length (calls (run_models ms initial))
                   \<and> read_confidence (snd (ms ! j)) = Inr (d', c')
                 \<longrightarrow> c' \<le> c \<and> (j < i \<longrightarrow> c' < c)))
         \<and> ((\<forall>m \<in> set ms. \<forall>d c. read_confidence (snd m) = Inr (d, c) \<longrightarrow> c \<le> 98 / 100)
              \<longrightarrow> calls (run_models ms initial) = map fst ms)"
proof -
  let ?s = "run_models ms initial"
  from chosen_final [of ms] obtain k where
    k: "k \<le> length ms" "length (calls ?s) = k" "chosen (take k ms) ?s" by blast
  from k(3) assms obtain i d where
    b: "first_best (take k ms) i d (highest_confidence ?s)"
       "r = dict_set d ''model_used'' (JStr (fst (take k ms ! i)))"
    by (auto simp: chosen_def)
  have bd: "bounded_by (take k ms) (highest_confidence ?s)" using k(3) by (simp add: chosen_def)
  from b(1) k(1) have i: "i < k" by (simp add: first_best_def)
  have nth: "take k ms ! j = ms ! j" if "j < k" for j using that by simp
  let ?c = "highest_confidence ?s"
  have 1: "read_confidence (snd (ms ! i)) = Inr (d, ?c)"
    using b(1) i by (simp add: first_best_def)
  have 2: "r = dict_set d ''model_used'' (JStr (fst (ms ! i)))" using b(2) i by simp
  have 3: "c' \<le> ?c \<and> (j < i \<longrightarrow> c' < ?c)"
    if "j < length (calls ?s) \<and> read_confidence (snd (ms ! j)) = Inr (d', c')" for j d' c'
  proof -
    from that k(2) have j: "j < k" by simp
    with that have rc: "read_confidence (snd (take k ms ! j)) = Inr (d', c')" by simp
    have "j < length (take k ms)" using j k(1) by simp
    with rc bd have "c' \<le> ?c" unfolding bounded_by_def by blast
    moreover have "c' < ?c" if "j < i"
      using b(1) rc that unfolding first_best_def by blast
    ultimately show ?thesis by blast
  qed
  have "i < length (calls ?s) \<and> i < length ms
            \<and> read_confidence (snd (ms ! i)) = Inr (d, ?c)
            \<and> r = dict_set d ''model_used'' (JStr (fst (ms ! i)))
            \<and> map_of r ''model_used'' = Some (JStr (fst (ms ! i)))
            \<and> (\<forall>j d' c'. j < length (calls ?s)
                   \<and> read_confidence (snd (ms ! j)) = Inr (d', c')
                 \<longrightarrow> c' \<le> ?c \<and> (j < i \<longrightarrow> c' < ?c))"
    using i k(1,2) 1 2 3 by (simp add: map_of_dict_set)
  then have "\<exists>i d c. i < length (calls ?s) \<and> i < length ms
            \<and> read_confidence (snd (ms ! i)) = Inr (d, c)
            \<and> r = dict_set d ''model_used'' (JStr (fst (ms ! i)))
            \<and> map_of r ''model_used'' = Some (JStr (fst (ms ! i)))
            \<and> (\<forall>j d' c'. j < length (calls ?s)
                   \<and> read_confidence (snd (ms ! j)) = Inr (d', c')
                 \<longrightarrow> c' \<le> c \<and> (j < i \<longrightarrow> c' < c))"
    by blast
  moreover have "calls ?s = map fst ms"
    if "\<forall>m \<in> set ms. \<forall>d c. read_confidence (snd m) = Inr (d, c) \<longrightarrow> c \<le> 98 / 100"
    using run_models_all_called [OF that, of initial] by (simp add: initial_def)
  ultimately show ?thesis by blast
qed

text \<open>
  The example of the specification: "fast" answers 0.6, "pro" answers 0.9 and is
  returned; both are called.
\<close>

theorem best_result_first_maximum_of_called_witness:
  "best_result (run_models
       [(''fast'', Parsed (JObj [(''A'', JStr ''x''), (''confidence_score'', JNum (6 / 10))])),
        (''pro'', Parsed (JObj [(''A'', JStr ''x''), (''B'', JStr ''y''),
                                (''confidence_score'', JNum (9 / 10))]))] initial)
     = Some [(''A'', JStr ''x''), (''B'', JStr ''y''), (''confidence_score'', JNum (9 / 10)),
             (''model_used'', JStr ''pro'')]
   \<and> map_of [(''A'', JStr ''x''), (''B'', JStr ''y''), (''confidence_score'', JNum (9 / 10)),
             (''model_used'', JStr ''pro'')] ''model_used'' = Some (JStr ''pro'')
   \<and> calls (run_models
       [(''fast'', Parsed (JObj [(''A'', JStr ''x''), (''confidence_score'', JNum (6 / 10))])),
        (''pro'', Parsed (JObj [(''A'', JStr ''x''), (''B'', JStr ''y''),
                                (''confidence_score'', JNum (9 / 10))]))] initial)
     = [''fast'', ''pro'']"
proof -
  let ?ms = "[(''fast'', Parsed (JObj [(''A'', JStr ''x''), (''confidence_score'', JNum (6 / 10))])),
        (''pro'', Parsed (JObj [(''A'', JStr ''x''), (''B'', JStr ''y''),
                                (''confidence_score'', JNum (9 / 10))]))]"
  let ?r = "[(''A'', JStr ''x''), (''B'', JStr ''y''), (''confidence_score'', JNum (9 / 10)),
             (''model_used'', JStr ''pro'')]"
  have h: "best_result (run_models ?ms initial) = Some ?r"
    by (simp add: run_eval)
  have low: "\<forall>m \<in> set ?ms. \<forall>d c. read_confidence (snd m) = Inr (d, c) \<longrightarrow> c \<le> 98 / 100"
    by (auto simp: run_eval)
  from best_result_first_maximum_of_called [OF h] low
  have "calls (run_models ?ms initial) = map fst ?ms" by blast
  with h show ?thesis by simp
qed

text \<open>
  The first model answers 0.99 and the second would answer 1: the function returns the
  first model's record, although the second has the larger confidence.
\<close>

theorem early_exit_hides_better_backend:
  "enhanced_gemini_extraction
     (\<lambda>n. if n = ''gemini-1.5-pro-latest''
          then Parsed (JObj [(''confidence_score'', JNum (99 / 100))])
          else Parsed (JObj [(''confidence_score'', JNum 1)]))
     = Some [(''confidence_score'', JNum (99 / 100)), (''model_used'', JStr ''gemini-1.5-pro-latest'')]
   \<and> read_confidence (Parsed (JObj [(''confidence_score'', JNum 1)]))
       = Inr ([(''confidence_score'', JNum 1)], 1)
   \<and> (99 / 100 :: real) < 1"
  by (simp add: run_eval)

subsection \<open>A success gives a result\<close>

text \<open>
  C10, as the code has it. If a candidate that is called answers with a dictionary whose
  defaulted confidence is a number strictly above -1.0 (every value from 0.0 to 1.0 is,
  and so is the default 0.0), the loop ends with a record and the function returns it.
  Nothing in the code bounds the confidence from below: an answer with a confidence of
  -1.0 or less never replaces the initial \<^verbatim>\<open>None\<close>.
\<close>

theorem called_success_gives_result:
  assumes "i < length (calls (run_models ms initial))"
    and "read_confidence (snd (ms ! i)) = Inr (d, c)" and "- 1 < c"
  shows "best_result (run_models ms initial) \<noteq> None
     \<and> best_result (report_failure (run_models ms initial)) \<noteq> None"
proof -
  let ?s = "run_models ms initial"
  from chosen_final [of ms] obtain k where
    k: "k \<le> length ms" "length (calls ?s) = k" "chosen (take k ms) ?s" by blast
  have "i < length (take k ms) \<and> read_confidence (snd (take k ms ! i)) = Inr (d, c)"
    using assms(1,2) k(1,2) by simp
  moreover have "bounded_by (take k ms) (highest_confidence ?s)" using k(3) by (simp add: chosen_def)
  ultimately have "c \<le> highest_confidence ?s" unfolding bounded_by_def by blast
  with assms(3) have "highest_confidence ?s \<noteq> - 1" by simp
  then have "best_result ?s \<noteq> None"
    using k(3) by (auto simp: chosen_def split: option.splits)
  then show ?thesis by (simp add: report_failure_best_result)
qed

text \<open>The first call fails and the second answers an empty object, which is returned.\<close>

theorem called_success_gives_result_witness:
  "length (calls (run_models [(''pro'', Raised ''quota''), (''flash'', Parsed (JObj []))] initial)) = 2
   \<and> read_confidence (Parsed (JObj [])) = Inr ([], 0)
   \<and> best_result (run_models [(''pro'', Raised ''quota''), (''flash'', Parsed (JObj []))] initial)
       = Some [(''model_used'', JStr ''flash'')]"
  using called_success_gives_result
    [of 1 "[(''pro'', Raised ''quota''), (''flash'', Parsed (JObj []))]" "[]" 0]
  by (simp add: run_eval)

text \<open>
  Both models answer a well-formed object with confidence -2: the calls succeed and the
  function returns \<^verbatim>\<open>None\<close>.
\<close>

theorem negative_confidence_gives_no_result:
  "read_confidence (Parsed (JObj [(''name'', JStr ''A. Kumar''), (''confidence_score'', JNum (- 2))]))
     = Inr ([(''name'', JStr ''A. Kumar''), (''confidence_score'', JNum (- 2))], - 2)
   \<and> enhanced_gemini_extraction
       (\<lambda>n. Parsed (JObj [(''name'', JStr ''A. Kumar''), (''confidence_score'', JNum (- 2))]))
     = None"
  by (simp add: run_eval)

subsection \<open>Every backend fails\<close>

text \<open>
  C3, as the code has it. If every candidate fails, the function returns \<^verbatim>\<open>None\<close>; the
  local list \<^verbatim>\<open>errors\<close> then holds exactly one message per candidate, in order, each
  naming its candidate and its exception, and is not empty when there is a candidate;
  each message was shown as a warning, and a final error is shown. The list itself is
  not part of what the function returns: line 184 returns \<^verbatim>\<open>best_result\<close> alone.
\<close>

theorem all_backends_fail:
  assumes "\<forall>m \<in> set ms. \<exists>e. read_confidence (snd m) = Inl e"
  shows "best_result (report_failure (run_models ms initial)) = None
     \<and> list_all2 failure_message (errors (run_models ms initial)) ms
     \<and> length (errors (run_models ms initial)) = length ms
     \<and> warnings (ui (run_models ms initial)) = errors (run_models ms initial)
     \<and> (ms \<noteq> [] \<longrightarrow> errors (run_models ms initial) \<noteq> []
          \<and> ui (report_failure (run_models ms initial))
              = ui (run_models ms initial) @ [Error AllModelsFailed])"
proof -
  let ?s = "run_models ms initial"
  from all_fail_run [OF assms, of initial] obtain es where
    es: "best_result ?s = None" "errors ?s = es" "list_all2 failure_message es ms"
        "warnings (ui ?s) = es"
    by (auto simp: initial_def)
  have len: "length es = length ms" using es(3) by (rule list_all2_lengthD)
  then have ne: "ms \<noteq> [] \<longrightarrow> es \<noteq> []" by auto
  show ?thesis using es len ne by (auto simp: report_failure_def)
qed

text \<open>
  One call raises and the other returns a JSON array, on which \<^verbatim>\<open>.get\<close> raises: two
  messages, two warnings, the final error, no record.
\<close>

theorem all_backends_fail_witness:
  "read_confidence (Raised ''quota exceeded'') = Inl (ApiError ''quota exceeded'')
   \<and> read_confidence (Parsed (JArr [])) = Inl AttributeError
   \<and> best_result (report_failure (run_models
        [(''pro'', Raised ''quota exceeded''), (''flash'', Parsed (JArr []))] initial)) = None
   \<and> errors (run_models [(''pro'', Raised ''quota exceeded''), (''flash'', Parsed (JArr []))] initial)
       = [ModelFailed ''pro'' (ApiError ''quota exceeded''), ModelFailed ''flash'' AttributeError]
   \<and> ui (report_failure (run_models
        [(''pro'', Raised ''quota exceeded''), (''flash'', Parsed (JArr []))] initial))
       = [Write (TryingModel ''pro''), Warning (ModelFailed ''pro'' (ApiError ''quota exceeded'')),
          Write (TryingModel ''flash''), Warning (ModelFailed ''flash'' AttributeError),
          Error AllModelsFailed]"
proof -
  have "\<forall>m \<in> set [(''pro'', Raised ''quota exceeded''), (''flash'', Parsed (JArr []))].
          \<exists>e. read_confidence (snd m) = Inl e"
    by (simp add: read_confidence_def)
  from all_backends_fail [OF this] show ?thesis
    by (simp add: run_eval)
qed

text \<open>
  Two runs that fail with different messages return the same value, \<^verbatim>\<open>None\<close>: the
  caller cannot read the error list off the returned value.
\<close>

theorem error_list_is_not_returned:
  "enhanced_gemini_extraction (\<lambda>n. Raised ''quota exceeded'') = None
   \<and> enhanced_gemini_extraction (\<lambda>n. Raised ''network unreachable'') = None
   \<and> errors (extraction_run (\<lambda>n. Raised ''quota exceeded''))
       = [ModelFailed ''gemini-1.5-pro-latest'' (ApiError ''quota exceeded''),
          ModelFailed ''gemini-1.5-flash-latest'' (ApiError ''quota exceeded'')]
   \<and> errors (extraction_run (\<lambda>n. Raised ''network unreachable''))
       = [ModelFailed ''gemini-1.5-pro-latest'' (ApiError ''network unreachable''),
          ModelFailed ''gemini-1.5-flash-latest'' (ApiError ''network unreachable'')]
   \<and> errors (extraction_run (\<lambda>n. Raised ''quota exceeded''))
       \<noteq> errors (extraction_run (\<lambda>n. Raised ''network unreachable''))"
  by (simp add: run_eval)

section \<open>Properties of the store\<close>

subsection \<open>Appending a record\<close>

text \<open>
  C2, as the code has it. Take a store as the program leaves it, calls on the file that
  succeed, and a record with at least one field of the schema that is neither null nor
  the empty string. Then \<^verbatim>\<open>save_to_excel\<close> returns \<^verbatim>\<open>True\<close> and the file holds a sheet
  whose columns are exactly \<^verbatim>\<open>EXCEL_COLUMNS\<close> in that order and whose rows are the rows
  loaded before followed by one new last row. The new row has one cell per column: the
  record's value where the record has the column's key, and nothing where it has not (or
  has null or the empty string there); keys of the record that are not columns of the
  schema appear nowhere. Read back, the file has the schema's columns and one row more
  than was loaded, and the last row is null in each of those empty cells. The store is
  again as the program leaves it. A record without such a field is outside this
  statement: it leaves no row.
\<close>

theorem save_to_excel_appends_nonblank_row:
  assumes "store_ok disk"
    and "disk = None \<longrightarrow> create_ok io" and "disk \<noteq> None \<longrightarrow> read_ok io"
    and "write_result io = Written"
    and "\<not> list_all blank (schema_row data_dict)"
  shows "save_to_excel io disk data_dict =
            (True,
             Some \<lparr>columns = EXCEL_COLUMNS,
                   rows = map (map written) (rows (loaded io disk))
                          @ [map written (schema_row data_dict)]\<rparr>,
             (case disk of None \<Rightarrow> [Success CreatedDatabase] | Some sheet \<Rightarrow> [])
               @ [Success SavedData])
     \<and> store_ok (Some \<lparr>columns = EXCEL_COLUMNS,
                        rows = map (map written) (rows (loaded io disk))
                               @ [map written (schema_row data_dict)]\<rparr>)
     \<and> length (schema_row data_dict) = length EXCEL_COLUMNS
     \<and> (\<forall>i < length EXCEL_COLUMNS.
           schema_row data_dict ! i
             = (case map_of data_dict (EXCEL_COLUMNS ! i) of None \<Rightarrow> JNull | Some v \<Rightarrow> v))
     \<and> columns (read_sheet (infer io)
          \<lparr>columns = EXCEL_COLUMNS,
            rows = map (map written) (rows (loaded io disk))
                   @ [map written (schema_row data_dict)]\<rparr>) = EXCEL_COLUMNS
     \<and> length (rows (read_sheet (infer io)
          \<lparr>columns = EXCEL_COLUMNS,
            rows = map (map written) (rows (loaded io disk))
                   @ [map written (schema_row data_dict)]\<rparr>))
         = Suc (length (rows (loaded io disk)))
     \<and> (\<forall>i < length EXCEL_COLUMNS.
           blank (schema_row data_dict ! i) \<longrightarrow>
           last (rows (read_sheet (infer io)
             \<lparr>columns = EXCEL_COLUMNS,
               rows = map (map written) (rows (loaded io disk))
                      @ [map written (schema_row data_dict)]\<rparr>)) ! i = JNull)"
proof -
  let ?old = "map (map written) (rows (loaded io disk))"
  let ?new = "map written (schema_row data_dict)"
  let ?S = "\<lparr>columns = EXCEL_COLUMNS, rows = ?old @ [?new]\<rparr>"
  let ?n = "length (rows (loaded io disk))"
  have nb: "\<not> list_all blank ?new" using assms(5) by (simp add: blank_row_written)
  have trim: "trim_rows (?old @ [?new]) = ?old @ [?new]" using nb by (rule trim_rows_snoc)
  have sheet: "to_sheet \<lparr>columns = EXCEL_COLUMNS, rows = rows (loaded io disk) @ [schema_row data_dict]\<rparr> = ?S"
    using trim by (simp add: to_sheet_def)
  have 1: "save_to_excel io disk data_dict =
      (True, Some ?S,
       (case disk of None \<Rightarrow> [Success CreatedDatabase] | Some sheet \<Rightarrow> []) @ [Success SavedData])"
    using save_to_excel_written [OF assms(1-4), of data_dict] sheet by simp
  have al: "\<forall>r \<in> set (rows (loaded io disk)). length r = length EXCEL_COLUMNS"
    using loaded_ok [OF assms(1), of io] by (simp add: aligned_def)
  have len: "length (schema_row data_dict) = length EXCEL_COLUMNS" by (simp add: schema_row_def)
  have 2: "store_ok (Some ?S)" using al len by (auto simp: store_ok_def)
  have 3: "\<forall>i < length EXCEL_COLUMNS.
           schema_row data_dict ! i
             = (case map_of data_dict (EXCEL_COLUMNS ! i) of None \<Rightarrow> JNull | Some v \<Rightarrow> v)"
    by (simp add: schema_row_def dict_get_def)
  have 4: "columns (read_sheet (infer io) ?S) = EXCEL_COLUMNS" by (simp add: columns_read_sheet)
  have 5: "length (rows (read_sheet (infer io) ?S)) = Suc ?n"
    using trim by (simp add: length_rows_read_sheet)
  have 6: "last (rows (read_sheet (infer io) ?S)) ! i = JNull"
    if i: "i < length EXCEL_COLUMNS" and b: "blank (schema_row data_dict ! i)" for i
  proof -
    have n: "?n < length (trim_rows (rows ?S))" using trim by simp
    have row: "trim_rows (rows ?S) ! ?n = ?new" using trim by (simp add: nth_append)
    have "blank (?new ! i)" using i b len by (simp add: blank_written)
    with rows_read_sheet_nth [OF n, of "infer io"] row i len
    have "rows (read_sheet (infer io) ?S) ! ?n ! i = JNull" by simp
    moreover have "rows (read_sheet (infer io) ?S) \<noteq> []" using 5 by auto
    then have "last (rows (read_sheet (infer io) ?S)) = rows (read_sheet (infer io) ?S) ! ?n"
      using 5 by (simp add: last_conv_nth)
    ultimately show ?thesis by simp
  qed
  from 1 2 len 3 4 5 6 show ?thesis by blast
qed

text \<open>
  A store of one row receives a record with one schema field, one field set to null, one
  set to the empty string and one key outside the schema.
\<close>

theorem save_to_excel_appends_nonblank_row_witness:
  "store_ok (Some \<lparr>columns = EXCEL_COLUMNS, rows = [map JStr EXCEL_COLUMNS]\<rparr>)
   \<and> \<not> list_all blank (schema_row
         [(''name'', JStr ''A. Kumar''), (''favourite_colour'', JStr ''blue''),
          (''pan_number'', JNull), (''branch_code'', JStr [])])
   \<and> save_to_excel
         \<lparr>create_ok = True, read_ok = True, write_result = Written, infer = na_inference\<rparr>
         (Some \<lparr>columns = EXCEL_COLUMNS, rows = [map JStr EXCEL_COLUMNS]\<rparr>)
         [(''name'', JStr ''A. Kumar''), (''favourite_colour'', JStr ''blue''),
          (''pan_number'', JNull), (''branch_code'', JStr [])]
       = (True,
          Some \<lparr>columns = EXCEL_COLUMNS,
                rows = [map JStr EXCEL_COLUMNS,
                        map (\<lambda>c. if c = ''name'' then JStr ''A. Kumar'' else JNull) EXCEL_COLUMNS]\<rparr>,
          [Success SavedData])
   \<and> length (rows (read_sheet na_inference
          \<lparr>columns = EXCEL_COLUMNS,
            rows = [map JStr EXCEL_COLUMNS,
                    map (\<lambda>c. if c = ''name'' then JStr ''A. Kumar'' else JNull) EXCEL_COLUMNS]\<rparr>)) = 2"
proof -
  let ?disk = "Some \<lparr>columns = EXCEL_COLUMNS, rows = [map JStr EXCEL_COLUMNS]\<rparr>"
  let ?io = "\<lparr>create_ok = True, read_ok = True, write_result = Written, infer = na_inference\<rparr>"
  let ?d = "[(''name'', JStr ''A. Kumar''), (''favourite_colour'', JStr ''blue''),
          (''pan_number'', JNull), (''branch_code'', JStr [])]"
  have ok: "store_ok ?disk" by (simp add: store_ok_def)
  have nb: "\<not> list_all blank (schema_row ?d)"
    by (simp add: schema_row_def dict_get_def blank_def EXCEL_COLUMNS_def)
  have old: "map (map written) (rows (loaded ?io ?disk)) = [map JStr EXCEL_COLUMNS]"
    by (simp add: sheet_eval EXCEL_COLUMNS_def)
  have new: "map written (schema_row ?d)
      = map (\<lambda>c. if c = ''name'' then JStr ''A. Kumar'' else JNull) EXCEL_COLUMNS"
    by (simp add: sheet_eval EXCEL_COLUMNS_def)
  have n: "length (rows (loaded ?io ?disk)) = 1"
    using arg_cong [OF old, of length] by simp
  from save_to_excel_appends_nonblank_row [of ?disk ?io ?d] ok nb old new n
  show ?thesis by simp
qed

text \<open>
  The empty record, and the record of a form whose inputs are all empty, on a store of
  one row: \<^verbatim>\<open>save_to_excel\<close> returns \<^verbatim>\<open>True\<close> and shows success, and the file holds the
  one row it held before.
\<close>

theorem blank_record_leaves_no_row:
  "save_to_excel
       \<lparr>create_ok = True, read_ok = True, write_result = Written, infer = na_inference\<rparr>
       (Some \<lparr>columns = EXCEL_COLUMNS, rows = [map JStr EXCEL_COLUMNS]\<rparr>) []
     = (True, Some \<lparr>columns = EXCEL_COLUMNS, rows = [map JStr EXCEL_COLUMNS]\<rparr>,
        [Success SavedData])
   \<and> save_to_excel
       \<lparr>create_ok = True, read_ok = True, write_result = Written, infer = na_inference\<rparr>
       (Some \<lparr>columns = EXCEL_COLUMNS, rows = [map JStr EXCEL_COLUMNS]\<rparr>)
       (edit_form (map (\<lambda>c. (c, JNull)) EXCEL_COLUMNS) (\<lambda>field. []))
     = (True, Some \<lparr>columns = EXCEL_COLUMNS, rows = [map JStr EXCEL_COLUMNS]\<rparr>,
        [Success SavedData])"
proof -
  let ?disk = "Some \<lparr>columns = EXCEL_COLUMNS, rows = [map JStr EXCEL_COLUMNS]\<rparr>"
  let ?io = "\<lparr>create_ok = True, read_ok = True, write_result = Written, infer = na_inference\<rparr>"
  let ?form = "edit_form (map (\<lambda>c. (c, JNull)) EXCEL_COLUMNS) (\<lambda>field. [])"
  have ok: "store_ok ?disk" by (simp add: store_ok_def)
  have old: "rows (loaded ?io ?disk) = [map JStr EXCEL_COLUMNS]"
    by (simp add: sheet_eval EXCEL_COLUMNS_def)
  have keep: "trim_rows [map written (map JStr EXCEL_COLUMNS)] = [map JStr EXCEL_COLUMNS]"
    by (simp add: trim_rows_def blank_def written_def EXCEL_COLUMNS_def)
  have b1: "list_all blank (map written (schema_row []))"
    by (simp add: schema_row_def dict_get_def blank_def written_def list_all_iff)
  have form: "schema_row ?form
      = map (\<lambda>c. if c = ''document_title'' \<or> c = ''society_name'' \<or> c = ''confidence_score''
                       \<or> c = ''model_used'' then JNull else JStr []) EXCEL_COLUMNS"
    by (simp add: schema_row_def dict_get_def edit_form_def EXCEL_COLUMNS_def
        personal_info_def employment_info_def address_info_def bank_info_def nominee_info_def Let_def)
  have b2: "list_all blank (map written (schema_row ?form))"
    unfolding form by (auto simp: blank_def written_def list_all_iff)
  have s: "to_sheet \<lparr>columns = EXCEL_COLUMNS, rows = rows (loaded ?io ?disk) @ [schema_row d]\<rparr>
      = \<lparr>columns = EXCEL_COLUMNS, rows = [map JStr EXCEL_COLUMNS]\<rparr>"
    if "list_all blank (map written (schema_row d))" for d
    using trim_rows_blank_snoc [OF that, of "[map written (map JStr EXCEL_COLUMNS)]"] keep old
    by (simp add: to_sheet_def)
  show ?thesis
    using save_to_excel_written [of ?disk ?io "[]"] save_to_excel_written [of ?disk ?io ?form]
      ok s [OF b1] s [OF b2]
    by simp
qed

subsection \<open>Column order of what is written\<close>

text \<open>
  C4, as the code has it. On a store as the program leaves it, the file after a
  successful append and the table of the full download have the columns
  \<^verbatim>\<open>EXCEL_COLUMNS\<close> in that order. The download of the single record being edited has
  the keys of that record as its columns, in the record's own order; nothing reorders
  them or adds the missing ones.
\<close>

theorem artifact_columns:
  "(store_ok disk \<and> save_to_excel io disk data_dict = (True, disk', evs)
      \<longrightarrow> (\<exists>t. disk' = Some t \<and> columns t = EXCEL_COLUMNS))
   \<and> (store_ok disk \<and> download_excel_file io disk = (Some blob, disk'', evs')
      \<longrightarrow> columns (snd blob) = EXCEL_COLUMNS)
   \<and> columns (snd (single_record_excel edited_data)) = map fst edited_data"
proof -
  have "\<exists>t. disk' = Some t \<and> columns t = EXCEL_COLUMNS"
    if a: "store_ok disk \<and> save_to_excel io disk data_dict = (True, disk', evs)"
  proof -
    from a have ok: "store_ok disk" and s: "save_to_excel io disk data_dict = (True, disk', evs)"
      by simp_all
    from save_to_excel_result [OF s]
    have "disk' = Some (to_sheet (concat_frames (loaded io disk)
                              \<lparr>columns = EXCEL_COLUMNS, rows = [schema_row data_dict]\<rparr>))"
      by (cases "write_result io") auto
    then show ?thesis using concat_loaded [OF ok, of io data_dict]
      by (simp add: columns_to_sheet)
  qed
  moreover have "columns (snd blob) = EXCEL_COLUMNS"
    if a: "store_ok disk \<and> download_excel_file io disk = (Some blob, disk'', evs')"
  proof -
    obtain res disk1 evs1 where l: "load_excel_data io disk = (res, disk1, evs1)"
      by (cases "load_excel_data io disk")
    with a obtain df where "res = Inr df" "blob = (''KYC_Data'', to_sheet df)"
      by (auto simp: download_excel_file_def split: sum.splits)
    with load_excel_data_cases [OF l] have "blob = (''KYC_Data'', to_sheet (loaded io disk))"
      by auto
    with loaded_ok [of disk io] a show ?thesis by (simp add: columns_to_sheet)
  qed
  moreover have "columns (snd (single_record_excel edited_data)) = map fst edited_data"
    by (simp add: single_record_excel_def DataFrame_def columns_to_sheet)
  ultimately show ?thesis by blast
qed

theorem artifact_columns_witness:
  "store_ok None
   \<and> save_to_excel
       \<lparr>create_ok = True, read_ok = True, write_result = Written, infer = na_inference\<rparr>
       None [(''name'', JStr ''A. Kumar'')]
     = (True, Some \<lparr>columns = EXCEL_COLUMNS,
                     rows = [map (\<lambda>c. if c = ''name'' then JStr ''A. Kumar'' else JNull)
                               EXCEL_COLUMNS]\<rparr>,
        [Success CreatedDatabase, Success SavedData])
   \<and> download_excel_file
       \<lparr>create_ok = True, read_ok = True, write_result = Written, infer = na_inference\<rparr> None
     = (Some (''KYC_Data'', \<lparr>columns = EXCEL_COLUMNS, rows = []\<rparr>),
        Some \<lparr>columns = EXCEL_COLUMNS, rows = []\<rparr>, [Success CreatedDatabase])
   \<and> columns (snd (single_record_excel [(''name'', JStr ''A. Kumar'')])) = [''name'']"
proof -
  let ?io = "\<lparr>create_ok = True, read_ok = True, write_result = Written, infer = na_inference\<rparr>"
  let ?d = "[(''name'', JStr ''A. Kumar'')]"
  let ?new = "\<lparr>columns = EXCEL_COLUMNS,
       rows = [map (\<lambda>c. if c = ''name'' then JStr ''A. Kumar'' else JNull) EXCEL_COLUMNS]\<rparr>"
  have ok: "store_ok None" by (simp add: store_ok_def)
  have sh: "to_sheet \<lparr>columns = EXCEL_COLUMNS, rows = rows (loaded ?io None) @ [schema_row ?d]\<rparr> = ?new"
    by (simp add: sheet_eval EXCEL_COLUMNS_def)
  have s: "save_to_excel ?io None ?d = (True, Some ?new, [Success CreatedDatabase, Success SavedData])"
    using save_to_excel_written [of None ?io ?d] ok sh by simp
  have dl: "download_excel_file ?io None
     = (Some (''KYC_Data'', \<lparr>columns = EXCEL_COLUMNS, rows = []\<rparr>),
        Some \<lparr>columns = EXCEL_COLUMNS, rows = []\<rparr>, [Success CreatedDatabase])"
    by (simp add: download_excel_file_def load_excel_data_def create_excel_file_def
        to_sheet_empty Let_def)
  from artifact_columns [where disk = None and io = ?io and data_dict = ?d
      and disk' = "Some ?new" and evs = "[Success CreatedDatabase, Success SavedData]"
      and blob = "(''KYC_Data'', \<lparr>columns = EXCEL_COLUMNS, rows = []\<rparr>)"
      and disk'' = "Some \<lparr>columns = EXCEL_COLUMNS, rows = []\<rparr>"
      and evs' = "[Success CreatedDatabase]" and edited_data = ?d] ok s dl
  show ?thesis by (simp add: single_record_excel_def DataFrame_def columns_to_sheet)
qed

text \<open>
  A record with every field of the schema goes through the edit form: its single-record
  download has 26 columns, in the order of the form's sections with the two titles last,
  and none for \<^verbatim>\<open>confidence_score\<close> and \<^verbatim>\<open>model_used\<close>.
\<close>

theorem single_record_export_not_in_schema_order:
  "columns (snd (single_record_excel
       (edit_form (map (\<lambda>c. (c, JNull)) EXCEL_COLUMNS) (\<lambda>field. []))))
     = [''name'', ''father_husband_name'', ''date_of_birth'', ''mobile_number'', ''pan_number'',
        ''aadhar_number'', ''control_number'', ''designation'', ''bill_unit_number'',
        ''department'', ''sr_number'', ''date_of_appointment'', ''office_address'',
        ''residential_address'', ''bank_name'', ''branch_name'', ''branch_code'',
        ''account_number'', ''ifsc_code'', ''nominee_name'', ''nominee_relation'',
        ''nominee_dob'', ''nominee_aadhar'', ''nominee_pan'', ''document_title'',
        ''society_name'']
   \<and> columns (snd (single_record_excel
       (edit_form (map (\<lambda>c. (c, JNull)) EXCEL_COLUMNS) (\<lambda>field. []))))
     \<noteq> EXCEL_COLUMNS"
  by (simp add: single_record_excel_def DataFrame_def columns_to_sheet edit_form_def
      EXCEL_COLUMNS_def personal_info_def employment_info_def address_info_def bank_info_def
      nominee_info_def dict_get_def Let_def)

subsection \<open>Export and reload\<close>

text \<open>
  C8, as the code has it. On a store as the program leaves it, \<^verbatim>\<open>download_excel_file\<close>
  writes the table it loaded. Reading the exported sheet back gives the columns of that
  table, which are the schema's, in the same order, and never more rows than the table
  has. It gives the same number of rows when the table has no rows or its last row has a
  cell that is neither null nor the empty string; rows at the end of the table that are
  entirely null are not written and are missing after the reload.
\<close>

theorem export_round_trip:
  assumes "store_ok disk" and "download_excel_file io disk = (Some blob, disk', evs)"
  shows "snd blob = to_sheet (loaded io disk)
     \<and> columns (read_sheet (infer io) (snd blob)) = columns (loaded io disk)
     \<and> columns (read_sheet (infer io) (snd blob)) = EXCEL_COLUMNS
     \<and> length (rows (read_sheet (infer io) (snd blob))) \<le> length (rows (loaded io disk))
     \<and> (rows (loaded io disk) = [] \<or> \<not> list_all blank (last (rows (loaded io disk)))
          \<longrightarrow> length (rows (read_sheet (infer io) (snd blob))) = length (rows (loaded io disk)))"
proof -
  let ?df = "loaded io disk"
  obtain res disk1 evs1 where l: "load_excel_data io disk = (res, disk1, evs1)"
    by (cases "load_excel_data io disk")
  with assms(2) obtain df where "res = Inr df" "blob = (''KYC_Data'', to_sheet df)"
    by (auto simp: download_excel_file_def split: sum.splits)
  with load_excel_data_cases [OF l] have b: "snd blob = to_sheet ?df" by auto
  have c: "columns (read_sheet (infer io) (snd blob)) = columns ?df"
    using b by (simp add: columns_read_sheet columns_to_sheet)
  have n: "length (rows (read_sheet (infer io) (snd blob)))
      = length (trim_rows (map (map written) (rows ?df)))"
    using b by (simp add: length_rows_read_sheet to_sheet_def trim_rows_idem)
  have le: "length (rows (read_sheet (infer io) (snd blob))) \<le> length (rows ?df)"
    using n length_trim_rows [of "map (map written) (rows ?df)"] by simp
  have eq: "length (rows (read_sheet (infer io) (snd blob))) = length (rows ?df)"
    if "rows ?df = [] \<or> \<not> list_all blank (last (rows ?df))"
  proof -
    have "map (map written) (rows ?df) = []
        \<or> \<not> list_all blank (last (map (map written) (rows ?df)))"
      using that by (auto simp: last_map blank_row_written)
    then have "trim_rows (map (map written) (rows ?df)) = map (map written) (rows ?df)"
      by (rule trim_rows_id)
    with n show ?thesis by simp
  qed
  from b c le eq loaded_ok [OF assms(1), of io] show ?thesis by auto
qed

text \<open>A store of one row of text is exported and read back with one row.\<close>

theorem export_round_trip_witness:
  "store_ok (Some \<lparr>columns = EXCEL_COLUMNS, rows = [map JStr EXCEL_COLUMNS]\<rparr>)
   \<and> download_excel_file
       \<lparr>create_ok = True, read_ok = True, write_result = Written, infer = na_inference\<rparr>
       (Some \<lparr>columns = EXCEL_COLUMNS, rows = [map JStr EXCEL_COLUMNS]\<rparr>)
     = (Some (''KYC_Data'', \<lparr>columns = EXCEL_COLUMNS, rows = [map JStr EXCEL_COLUMNS]\<rparr>),
        Some \<lparr>columns = EXCEL_COLUMNS, rows = [map JStr EXCEL_COLUMNS]\<rparr>, [])
   \<and> rows (loaded
         \<lparr>create_ok = True, read_ok = True, write_result = Written, infer = na_inference\<rparr>
         (Some \<lparr>columns = EXCEL_COLUMNS, rows = [map JStr EXCEL_COLUMNS]\<rparr>))
       = [map JStr EXCEL_COLUMNS]
   \<and> length (rows (read_sheet na_inference
         \<lparr>columns = EXCEL_COLUMNS, rows = [map JStr EXCEL_COLUMNS]\<rparr>)) = 1
   \<and> columns (read_sheet na_inference
         \<lparr>columns = EXCEL_COLUMNS, rows = [map JStr EXCEL_COLUMNS]\<rparr>) = EXCEL_COLUMNS"
proof -
  let ?S = "\<lparr>columns = EXCEL_COLUMNS, rows = [map JStr EXCEL_COLUMNS]\<rparr>"
  let ?io = "\<lparr>create_ok = True, read_ok = True, write_result = Written, infer = na_inference\<rparr>"
  have ok: "store_ok (Some ?S)" by (simp add: store_ok_def)
  have old: "rows (loaded ?io (Some ?S)) = [map JStr EXCEL_COLUMNS]"
    by (simp add: sheet_eval EXCEL_COLUMNS_def)
  have l: "loaded ?io (Some ?S) = ?S"
    using old by (simp add: loaded_def columns_read_sheet)
  have nb: "\<not> list_all blank (map JStr EXCEL_COLUMNS)"
    by (simp add: blank_def EXCEL_COLUMNS_def)
  have ts: "to_sheet ?S = ?S"
    by (simp add: to_sheet_def trim_rows_def blank_def written_def EXCEL_COLUMNS_def)
  have dl: "download_excel_file ?io (Some ?S) = (Some (''KYC_Data'', ?S), Some ?S, [])"
    using l ts by (simp add: download_excel_file_def load_excel_data_def create_excel_file_def loaded_def)
  from export_round_trip [OF ok dl] old nb l show ?thesis using dl ok by simp
qed

text \<open>
  A record whose only entry is the text \<^verbatim>\<open>NA\<close> is appended to a new store. The reader
  takes \<^verbatim>\<open>NA\<close> for a missing value, so the table loaded for the export has one row, all
  null; the exported sheet has no row and a reload gives none.
\<close>

theorem export_drops_row_read_as_missing:
  "save_to_excel
       \<lparr>create_ok = True, read_ok = True, write_result = Written, infer = na_inference\<rparr>
       None [(''nominee_name'', JStr ''NA'')]
     = (True,
        Some \<lparr>columns = EXCEL_COLUMNS,
              rows = [map (\<lambda>c. if c = ''nominee_name'' then JStr ''NA'' else JNull) EXCEL_COLUMNS]\<rparr>,
        [Success CreatedDatabase, Success SavedData])
   \<and> download_excel_file
       \<lparr>create_ok = True, read_ok = True, write_result = Written, infer = na_inference\<rparr>
       (Some \<lparr>columns = EXCEL_COLUMNS,
              rows = [map (\<lambda>c. if c = ''nominee_name'' then JStr ''NA'' else JNull) EXCEL_COLUMNS]\<rparr>)
     = (Some (''KYC_Data'', \<lparr>columns = EXCEL_COLUMNS, rows = []\<rparr>),
        Some \<lparr>columns = EXCEL_COLUMNS,
              rows = [map (\<lambda>c. if c = ''nominee_name'' then JStr ''NA'' else JNull) EXCEL_COLUMNS]\<rparr>,
        [])
   \<and> length (rows (loaded
         \<lparr>create_ok = True, read_ok = True, write_result = Written, infer = na_inference\<rparr>
         (Some \<lparr>columns = EXCEL_COLUMNS,
                rows = [map (\<lambda>c. if c = ''nominee_name'' then JStr ''NA'' else JNull)
                          EXCEL_COLUMNS]\<rparr>))) = 1
   \<and> length (rows (read_sheet na_inference \<lparr>columns = EXCEL_COLUMNS, rows = []\<rparr>)) = 0"
proof -
  let ?io = "\<lparr>create_ok = True, read_ok = True, write_result = Written, infer = na_inference\<rparr>"
  let ?row = "map (\<lambda>c. if c = ''nominee_name'' then JStr ''NA'' else JNull) EXCEL_COLUMNS"
  let ?S = "\<lparr>columns = EXCEL_COLUMNS, rows = [?row]\<rparr>"
  have ok: "store_ok None" by (simp add: store_ok_def)
  have sh: "to_sheet \<lparr>columns = EXCEL_COLUMNS,
        rows = rows (loaded ?io None) @ [schema_row [(''nominee_name'', JStr ''NA'')]]\<rparr> = ?S"
    by (simp add: sheet_eval EXCEL_COLUMNS_def)
  have s: "save_to_excel ?io None [(''nominee_name'', JStr ''NA'')]
      = (True, Some ?S, [Success CreatedDatabase, Success SavedData])"
    using save_to_excel_written [of None ?io "[(''nominee_name'', JStr ''NA'')]"] ok sh by simp
  have l: "loaded ?io (Some ?S) = \<lparr>columns = EXCEL_COLUMNS, rows = [map (\<lambda>c. JNull) EXCEL_COLUMNS]\<rparr>"
    by (simp add: sheet_eval EXCEL_COLUMNS_def)
  have ts: "to_sheet \<lparr>columns = EXCEL_COLUMNS, rows = [map (\<lambda>c. JNull) EXCEL_COLUMNS]\<rparr>
      = \<lparr>columns = EXCEL_COLUMNS, rows = []\<rparr>"
    by (simp add: to_sheet_def trim_rows_def blank_def written_def list_all_iff)
  have dl: "download_excel_file ?io (Some ?S)
      = (Some (''KYC_Data'', \<lparr>columns = EXCEL_COLUMNS, rows = []\<rparr>), Some ?S, [])"
    using l ts
    by (simp add: download_excel_file_def load_excel_data_def create_excel_file_def loaded_def)
  have r: "length (rows (read_sheet na_inference \<lparr>columns = EXCEL_COLUMNS, rows = []\<rparr>)) = 0"
    by (simp add: read_sheet_def trim_rows_def)
  from s dl l r show ?thesis by simp
qed

subsection \<open>A failed append\<close>




end
